theory Spec2Isabelle
  imports Main "HOL-Library.Monad_Syntax"
begin

section \<open>JavaScript strings, arrays and regular expressions\<close>

text \<open>
  A JavaScript string is modelled as a list of characters, one \<^typ>\<open>char\<close> per code
  point (the source iterates strings with \<^verbatim>\<open>for (const char of typeStr)\<close>); the
  characters are those with codes below 256. Every regular expression of the source is
  written out as the matcher it denotes: leftmost match, greedy quantifiers, no flag other
  than \<^verbatim>\<open>g\<close>.
\<close>

definition NL :: char where
  "NL = CHR 0x0A"

definition DQ :: char where
  "DQ = CHR 0x22"

definition SQ :: char where
  "SQ = CHR 0x27"

definition BSL :: char where
  "BSL = CHR 0x5C"

definition isSpace :: "char \<Rightarrow> bool" where
  \<comment> \<open>the class \<^verbatim>\<open>\s\<close>, also what \<^verbatim>\<open>trim\<close> removes\<close>
  "isSpace c = (c \<in> set [CHR 0x09, CHR 0x0A, CHR 0x0B, CHR 0x0C, CHR 0x0D, CHR 0x20, CHR 0xA0])"

definition isWordChar :: "char \<Rightarrow> bool" where
  \<comment> \<open>the class \<^verbatim>\<open>\w\<close>\<close>
  "isWordChar c =
     (c \<in> set (''abcdefghijklmnopqrstuvwxyz'' @ ''ABCDEFGHIJKLMNOPQRSTUVWXYZ'' @ ''0123456789_''))"

definition startsWith :: "string \<Rightarrow> string \<Rightarrow> bool" where
  \<comment> \<open>\<^verbatim>\<open>s.startsWith(p)\<close>\<close>
  "startsWith s p = (take (length p) s = p)"

fun join :: "string \<Rightarrow> string list \<Rightarrow> string" where
  \<comment> \<open>\<^verbatim>\<open>xs.join(sep)\<close>\<close>
  "join sep [] = []"
| "join sep [x] = x"
| "join sep (x # y # ys) = x @ sep @ join sep (y # ys)"

definition trim :: "string \<Rightarrow> string" where
  "trim s = rev (dropWhile isSpace (rev (dropWhile isSpace s)))"

fun tails :: "string \<Rightarrow> string list" where
  \<comment> \<open>the suffixes of a string, longest first: the positions a regular expression is tried at\<close>
  "tails [] = [[]]"
| "tails (c # cs) = (c # cs) # tails cs"

definition spreadSet :: "string list \<Rightarrow> string list" where
  \<comment> \<open>\<^verbatim>\<open>[...new Set(parts)]\<close>: a Set keeps the first insertion of each value, in insertion order\<close>
  "spreadSet parts = fold (\<lambda>p acc. if p \<in> set acc then acc else acc @ [p]) parts []"

fun insertBy :: "('a \<Rightarrow> 'a \<Rightarrow> int) \<Rightarrow> 'a \<Rightarrow> 'a list \<Rightarrow> 'a list" where
  "insertBy cmp x [] = [x]"
| "insertBy cmp x (y # ys) = (if cmp x y \<le> 0 then x # y # ys else y # insertBy cmp x ys)"

definition sortBy :: "('a \<Rightarrow> 'a \<Rightarrow> int) \<Rightarrow> 'a list \<Rightarrow> 'a list" where
  \<comment> \<open>\<^verbatim>\<open>xs.sort(cmp)\<close>: the sort is stable; here as insertion from the right, each element
      placed before the first later one it does not compare greater than\<close>
  "sortBy cmp xs = foldr (insertBy cmp) xs []"

subsection \<open>Identifier test and JSON quoting of property names\<close>

definition isIdentStart :: "char \<Rightarrow> bool" where
  "isIdentStart c =
     (c \<in> set (''abcdefghijklmnopqrstuvwxyz'' @ ''ABCDEFGHIJKLMNOPQRSTUVWXYZ'' @ ''_$''))"

definition isIdentPart :: "char \<Rightarrow> bool" where
  "isIdentPart c =
     (c \<in> set (''abcdefghijklmnopqrstuvwxyz'' @ ''ABCDEFGHIJKLMNOPQRSTUVWXYZ'' @ ''0123456789_$''))"

definition VALID_IDENT :: "string \<Rightarrow> bool" where
  \<comment> \<open>\<^verbatim>\<open>/^[a-zA-Z_$][a-zA-Z0-9_$]*$/.test(s)\<close>\<close>
  "VALID_IDENT s = (case s of [] \<Rightarrow> False | c # cs \<Rightarrow> isIdentStart c \<and> list_all isIdentPart cs)"

definition hexDigit :: "nat \<Rightarrow> char" where
  "hexDigit n = ''0123456789abcdef'' ! (n mod 16)"

definition jsonEscape :: "char \<Rightarrow> string" where
  \<comment> \<open>one character inside \<^verbatim>\<open>JSON.stringify\<close> of a string\<close>
  "jsonEscape c =
     (if c = CHR 0x08 then [BSL, CHR ''b'']
      else if c = CHR 0x09 then [BSL, CHR ''t'']
      else if c = CHR 0x0A then [BSL, CHR ''n'']
      else if c = CHR 0x0C then [BSL, CHR ''f'']
      else if c = CHR 0x0D then [BSL, CHR ''r'']
      else if c = DQ then [BSL, DQ]
      else if c = BSL then [BSL, BSL]
      else if (of_char c :: nat) < 32
        then [BSL, CHR ''u'', CHR ''0'', CHR ''0'', hexDigit (of_char c div 16), hexDigit (of_char c)]
      else [c])"

definition JSON_stringify :: "string \<Rightarrow> string" where
  "JSON_stringify s = [DQ] @ concat (map jsonEscape s) @ [DQ]"

subsection \<open>The two noise detectors\<close>

definition matchSymbolKey :: "string \<Rightarrow> bool" where
  \<comment> \<open>\<^verbatim>\<open>\[\s*Symbol\.\s*(unscopables|iterator)\s*\]\<close> matched at the head of \<open>s\<close>\<close>
  "matchSymbolKey s =
     (case s of
        [] \<Rightarrow> False
      | c # r1 \<Rightarrow>
          c = CHR ''['' \<and>
          (let r2 = dropWhile isSpace r1 in
           startsWith r2 ''Symbol.'' \<and>
           (let r3 = dropWhile isSpace (drop 7 r2) in
            (startsWith r3 ''unscopables'' \<and>
               startsWith (dropWhile isSpace (drop 11 r3)) '']'') \<or>
            (startsWith r3 ''iterator'' \<and>
               startsWith (dropWhile isSpace (drop 8 r3)) '']''))))"

definition matchMethodKey :: "string \<Rightarrow> bool" where
  \<comment> \<open>\<^verbatim>\<open>(?:pop|push|shift|splice|concat|reverse|forEach|indexOf)\??\s*:\<close> at the head of \<open>s\<close>\<close>
  "matchMethodKey s =
     list_ex (\<lambda>w.
        startsWith s w \<and>
        (let r1 = drop (length w) s;
             r2 = (if startsWith r1 ''?'' then drop 1 r1 else r1)
         in startsWith (dropWhile isSpace r2) '':''))
       [''pop'', ''push'', ''shift'', ''splice'', ''concat'', ''reverse'', ''forEach'', ''indexOf'']"

definition EXPANDED_ARRAY_RE :: "string \<Rightarrow> bool" where
  \<comment> \<open>\<^verbatim>\<open>EXPANDED_ARRAY_RE.test(text)\<close>\<close>
  "EXPANDED_ARRAY_RE text = list_ex (\<lambda>s. matchSymbolKey s \<or> matchMethodKey s) (tails text)"

definition wordEnds :: "string \<Rightarrow> bool" where
  \<comment> \<open>\<^verbatim>\<open>\b\<close> after a word character: the next character, if any, is not a word character\<close>
  "wordEnds s = (case s of [] \<Rightarrow> True | c # _ \<Rightarrow> if isWordChar c then False else True)"

fun dupTail :: "string \<Rightarrow> string \<Rightarrow> bool" where
  \<comment> \<open>\<^verbatim>\<open>[^;{}]*?\|\s*\1\b\<close> at the head of the string, \<open>w\<close> the text of group 1\<close>
  "dupTail w [] = False"
| "dupTail w (c # cs) =
     (if c = CHR ''|'' \<and> startsWith (dropWhile isSpace cs) w
           \<and> wordEnds (drop (length w) (dropWhile isSpace cs)) then True
      else if c \<in> set '';{}'' then False
      else dupTail w cs)"

definition dupAt :: "string \<Rightarrow> string \<Rightarrow> bool" where
  \<comment> \<open>\<^verbatim>\<open>(undefined|null)\b[^;{}]*?\|\s*\1\b\<close> at the head of \<open>s\<close>, for one alternative \<open>w\<close>\<close>
  "dupAt w s = (startsWith s w \<and> wordEnds (drop (length w) s) \<and> dupTail w (drop (length w) s))"

fun dupFrom :: "bool \<Rightarrow> string \<Rightarrow> bool" where
  \<comment> \<open>the search over start positions; the flag says whether the character before is a word
      character (the leading \<^verbatim>\<open>\b\<close>)\<close>
  "dupFrom prevWord [] = False"
| "dupFrom prevWord (c # cs) =
     (if prevWord then dupFrom (isWordChar c) cs
      else if dupAt ''undefined'' (c # cs) \<or> dupAt ''null'' (c # cs) then True
      else dupFrom (isWordChar c) cs)"

definition DUPLICATE_UNION_RE :: "string \<Rightarrow> bool" where
  \<comment> \<open>\<^verbatim>\<open>DUPLICATE_UNION_RE.test(text)\<close>\<close>
  "DUPLICATE_UNION_RE text = dupFrom False text"

section \<open>The type checker's types\<close>

text \<open>
  A ts-morph \<^verbatim>\<open>Type\<close> is an object the program only queries. It is a handle into a
  store of records, one field per query the source makes, so that a type may refer to
  itself. \<^verbatim>\<open>getText\<close> is always called with the same node and flags, and
  \<^verbatim>\<open>getCallSignatures\<close> is only asked its length.
\<close>

type_synonym handle = nat

record property =
  getName :: string
  isOptional :: bool
  getTypeAtLocation :: handle

record tstype =
  isArray :: bool
  getArrayElementType :: "handle option"
  isTuple :: bool
  getTupleElements :: "handle list"
  isUnion :: bool
  getUnionTypes :: "handle list"
  isIntersection :: bool
  getIntersectionTypes :: "handle list"
  isObject :: bool
  getCallSignatures :: nat
  getSymbol :: "string option"
  getAliasSymbol :: "string option"
  getTypeArguments :: "handle list"
  getAliasTypeArguments :: "handle list"
  getNumberIndexType :: "handle option"
  getProperties :: "property list"
  getText :: string

type_synonym checker = "handle \<Rightarrow> tstype"

definition KNOWN_GENERICS :: "string list" where
  "KNOWN_GENERICS =
     [''Array'', ''ReadonlyArray'', ''Promise'', ''Map'', ''Set'', ''WeakMap'', ''WeakSet'',
      ''Readonly'', ''Partial'', ''Required'', ''Pick'', ''Omit'', ''Record'', ''Exclude'',
      ''Extract'', ''NonNullable'', ''ReturnType'', ''Iterable'', ''Iterator'',
      ''AsyncIterable'', ''AsyncIterator'', ''Generator'', ''AsyncGenerator'',
      ''IterableIterator'']"

definition ARRAY_FINGERPRINT :: "string list" where
  "ARRAY_FINGERPRINT =
     [''length'', ''push'', ''pop'', ''concat'', ''join'', ''reverse'', ''shift'', ''slice'',
      ''sort'', ''splice'', ''indexOf'', ''forEach'', ''map'', ''filter'', ''reduce'', ''find'']"

definition MAX_RESOLVE_DEPTH :: nat where
  "MAX_RESOLVE_DEPTH = 10"

section \<open>resolveTypeText\<close>

fun mapM :: "('a \<Rightarrow> 'b option) \<Rightarrow> 'a list \<Rightarrow> 'b list option" where
  \<comment> \<open>\<^verbatim>\<open>xs.map(f)\<close> for a callback that may not return: left to right, stopping there\<close>
  "mapM f [] = Some []"
| "mapM f (x # xs) = do { y \<leftarrow> f x; ys \<leftarrow> mapM f xs; Some (y # ys) }"

lemma mapM_mono [partial_function_mono]:
  assumes "\<And>x. mono_option (\<lambda>f. g f x)"
  shows "mono_option (\<lambda>f. mapM (g f) xs)"
proof (induction xs)
  case Nil
  show ?case by (simp add: option.const_mono)
next
  case (Cons x xs)
  show ?case unfolding mapM.simps
    by (intro bind_mono assms Cons option.const_mono)
qed

definition collapseBoolean :: "string list \<Rightarrow> string list" where
  \<comment> \<open>the \<^verbatim>\<open>hasFalse && hasTrue\<close> block of the union branch\<close>
  "collapseBoolean unique =
     (if ''false'' \<in> set unique \<and> ''true'' \<in> set unique
      then filter (\<lambda>p. p \<noteq> ''false'' \<and> p \<noteq> ''true'') unique @ [''boolean'']
      else unique)"

definition nullish :: "string \<Rightarrow> bool" where
  "nullish a = (a \<in> set [''null'', ''undefined''])"

definition nullishCompare :: "string \<Rightarrow> string \<Rightarrow> int" where
  \<comment> \<open>the comparator given to \<^verbatim>\<open>unique.sort\<close>\<close>
  "nullishCompare a b = (if nullish a then 1 else 0) - (if nullish b then 1 else 0)"

definition anonymousObject :: "tstype \<Rightarrow> bool" where
  \<comment> \<open>the predicate of \<^verbatim>\<open>members.every\<close> in the intersection branch; a missing symbol
      gives the name \<^verbatim>\<open>""\<close>, which is no known generic\<close>
  "anonymousObject m =
     (isObject m \<and> \<not> isArray m \<and> getCallSignatures m = 0
      \<and> (case getSymbol m of None \<Rightarrow> True | Some n \<Rightarrow> n \<notin> set KNOWN_GENERICS)
      \<and> (case getAliasSymbol m of None \<Rightarrow> True | Some n \<Rightarrow> n \<notin> set KNOWN_GENERICS))"

definition propertyKey :: "string \<Rightarrow> string" where
  \<comment> \<open>\<^verbatim>\<open>VALID_IDENT.test(propName) ? propName : JSON.stringify(propName)\<close>\<close>
  "propertyKey propName = (if VALID_IDENT propName then propName else JSON_stringify propName)"

definition knownGenericName :: "tstype \<Rightarrow> string option" where
  \<comment> \<open>\<^verbatim>\<open>symbol = type.getSymbol() ?? type.getAliasSymbol()\<close>, kept when it is a known generic\<close>
  "knownGenericName ty =
     (case (case getSymbol ty of Some s \<Rightarrow> Some s | None \<Rightarrow> getAliasSymbol ty) of
        None \<Rightarrow> None
      | Some name \<Rightarrow> if name \<in> set KNOWN_GENERICS then Some name else None)"

definition fingerprintMatched :: "tstype \<Rightarrow> nat" where
  \<comment> \<open>the counter \<^verbatim>\<open>matched\<close>\<close>
  "fingerprintMatched ty =
     length (filter (\<lambda>fp. fp \<in> set (map getName (getProperties ty))) ARRAY_FINGERPRINT)"

definition expandedArrayElement :: "tstype \<Rightarrow> handle option" where
  \<comment> \<open>the number index type, when \<^verbatim>\<open>matched >= ARRAY_FINGERPRINT.size * 0.75\<close>\<close>
  "expandedArrayElement ty =
     (case getNumberIndexType ty of
        None \<Rightarrow> None
      | Some numberIndexType \<Rightarrow>
          if 4 * fingerprintMatched ty \<ge> 3 * length ARRAY_FINGERPRINT
          then Some numberIndexType else None)"

text \<open>
  The recursion is defined without assuming that it ends: \<^const>\<open>None\<close> is a call that
  does not return. No branch of the source raises.
\<close>

partial_function (option) resolveTypeText :: "checker \<Rightarrow> handle \<Rightarrow> nat \<Rightarrow> string option" where
  "resolveTypeText env type depth =
    (let ty = env type in
     if depth > MAX_RESOLVE_DEPTH then Some (getText ty)
     else if isArray ty then
       (case getArrayElementType ty of
          None \<Rightarrow> Some ''unknown[]''
        | Some elementType \<Rightarrow> do {
            inner \<leftarrow> resolveTypeText env elementType (depth + 1);
            if isUnion (env elementType) \<or> isIntersection (env elementType)
            then Some (''Array<'' @ inner @ ''>'')
            else Some (inner @ ''[]'')
          })
     else if isTuple ty then do {
       elements \<leftarrow> mapM (\<lambda>t. resolveTypeText env t (depth + 1)) (getTupleElements ty);
       Some (''['' @ join '', '' elements @ '']'')
     }
     else if isUnion ty then do {
       parts \<leftarrow> mapM (\<lambda>t. resolveTypeText env t (depth + 1)) (getUnionTypes ty);
       Some (join '' | '' (sortBy nullishCompare (collapseBoolean (spreadSet parts))))
     }
     else if isIntersection ty then
       (let members = getIntersectionTypes ty;
            allAnonymousObjects =
              (list_all (\<lambda>m. anonymousObject (env m)) members
               \<and> list_ex (\<lambda>m. length (getProperties (env m)) > 0) members)
        in do {
          entries \<leftarrow>
            (if allAnonymousObjects \<and> length members > 1
             then mapM (\<lambda>prop. do {
                      resolved \<leftarrow> resolveTypeText env (getTypeAtLocation prop) (depth + 1);
                      Some (propertyKey (getName prop) @ (if isOptional prop then ''?'' else '''')
                            @ '': '' @ resolved)
                    })
                    (filter (\<lambda>prop. \<not> startsWith (getName prop) ''__@'') (getProperties ty))
             else Some []);
          if length entries > 0 then Some (''{ '' @ join ''; '' entries @ '' }'')
          else do {
            parts \<leftarrow> mapM (\<lambda>t. resolveTypeText env t (depth + 1)) members;
            (let unique = spreadSet (filter (\<lambda>p. p \<noteq> ''{}'') parts) in
             if length unique = 0 then Some ''{}''
             else if length unique = 1 then Some (hd unique)
             else Some (join '' & '' unique))
          }
        })
     else
       (case knownGenericName ty of
          Some name \<Rightarrow>
            (let typeArgs = (if length (getTypeArguments ty) > 0 then getTypeArguments ty
                             else getAliasTypeArguments ty)
             in if length typeArgs > 0 then do {
                  args \<leftarrow> mapM (\<lambda>t. resolveTypeText env t (depth + 1)) typeArgs;
                  Some (name @ ''<'' @ join '', '' args @ ''>'')
                }
                else Some name)
        | None \<Rightarrow>
            if isObject ty then
              (case expandedArrayElement ty of
                 Some numberIndexType \<Rightarrow> do {
                   inner \<leftarrow> resolveTypeText env numberIndexType (depth + 1);
                   Some (inner @ ''[]'')
                 }
               | None \<Rightarrow>
                   (let text = getText ty in
                    if \<not> EXPANDED_ARRAY_RE text \<and> \<not> DUPLICATE_UNION_RE text then Some text
                    else do {
                      entries \<leftarrow>
                        (if length (getProperties ty) > 0 \<and> getCallSignatures ty = 0
                         then mapM (\<lambda>prop. do {
                                  resolved \<leftarrow>
                                    resolveTypeText env (getTypeAtLocation prop) (depth + 1);
                                  Some (propertyKey (getName prop)
                                        @ (if isOptional prop then ''?'' else '''')
                                        @ '': '' @ resolved)
                                })
                                (filter (\<lambda>prop. \<not> startsWith (getName prop) ''__@'')
                                   (getProperties ty))
                         else Some []);
                      if length entries > 0 then Some (''{ '' @ join ''; '' entries @ '' }'')
                      else Some text
                    }))
            else Some (getText ty)))"

declare resolveTypeText.simps [code]

section \<open>Example checkers\<close>

definition plain :: "string \<Rightarrow> tstype" where
  \<comment> \<open>a type that answers no to every query and has the given text\<close>
  "plain text =
     \<lparr>isArray = False, getArrayElementType = None, isTuple = False, getTupleElements = [],
      isUnion = False, getUnionTypes = [], isIntersection = False, getIntersectionTypes = [],
      isObject = False, getCallSignatures = 0, getSymbol = None, getAliasSymbol = None,
      getTypeArguments = [], getAliasTypeArguments = [], getNumberIndexType = None,
      getProperties = [], getText = text\<rparr>"

definition selfRef :: checker where
  \<comment> \<open>\<^verbatim>\<open>type Node = { next?: Node }\<close> behind every handle, with a text that makes the object
      branch descend into the property\<close>
  "selfRef h =
     (plain ''{ next?: Node | undefined | undefined; }'')
       \<lparr>isObject := True,
        getProperties := [\<lparr>getName = ''next'', isOptional = True, getTypeAtLocation = h\<rparr>]\<rparr>"

section \<open>Termination of resolveTypeText\<close>

lemma mapM_returns:
  assumes "\<And>x. \<exists>y. f x = Some y"
  shows "\<exists>ys. mapM f xs = Some ys \<and> length ys = length xs"
proof (induction xs)
  case Nil
  show ?case by simp
next
  case (Cons x xs)
  from assms obtain y where "f x = Some y" by blast
  moreover from Cons obtain ys where "mapM f xs = Some ys" "length ys = length xs" by blast
  ultimately show ?case by simp
qed

lemma bind_returns:
  assumes "\<exists>y. m = Some y" and "\<And>y. \<exists>z. f y = Some z"
  shows "\<exists>z. Option.bind m f = Some z"
  using assms by (cases m) auto

lemma if_returns:
  assumes "c \<Longrightarrow> \<exists>z. a = Some z" and "\<not> c \<Longrightarrow> \<exists>z. b = Some z"
  shows "\<exists>z. (if c then a else b) = Some z"
  using assms by simp

lemma case_option_returns:
  assumes "x = None \<Longrightarrow> \<exists>z. a = Some z" and "\<And>y. x = Some y \<Longrightarrow> \<exists>z. b y = Some z"
  shows "\<exists>z. (case x of None \<Rightarrow> a | Some y \<Rightarrow> b y) = Some z"
  using assms by (cases x) auto

lemma Some_returns: "\<exists>z. Some x = Some z"
  by simp

lemma resolveTypeText_returns: "\<exists>s. resolveTypeText env t d = Some s"
proof (induction "MAX_RESOLVE_DEPTH + 1 - d" arbitrary: t d)
  case 0
  then have "d > MAX_RESOLVE_DEPTH" by simp
  then show ?case by (subst resolveTypeText.simps) (simp add: Let_def)
next
  case (Suc n)
  have deeper: "\<exists>s. resolveTypeText env t' (d + 1) = Some s" for t'
    using Suc by simp
  have members: "\<exists>ys. mapM (\<lambda>t. resolveTypeText env t (d + 1)) xs = Some ys" for xs
    using mapM_returns [of "\<lambda>t. resolveTypeText env t (d + 1)" xs] deeper by blast
  have entries: "\<exists>es. mapM (\<lambda>prop. do {
                      resolved \<leftarrow> resolveTypeText env (getTypeAtLocation prop) (d + 1);
                      Some (propertyKey (getName prop) @ (if isOptional prop then ''?'' else '''')
                            @ '': '' @ resolved)
                    }) ps = Some es" for ps :: "property list"
  proof -
    have "\<exists>e. (do {
                  resolved \<leftarrow> resolveTypeText env (getTypeAtLocation p) (d + 1);
                  Some (propertyKey (getName p) @ (if isOptional p then ''?'' else [])
                        @ '': '' @ resolved)
                }) = Some e" for p :: property
      by (rule bind_returns) (rule deeper, simp)
    then show ?thesis
      using mapM_returns [of "\<lambda>q. do {
                  resolved \<leftarrow> resolveTypeText env (getTypeAtLocation q) (d + 1);
                  Some (propertyKey (getName q) @ (if isOptional q then ''?'' else [])
                        @ '': '' @ resolved)
                }" ps]
      by blast
  qed
  show ?case
    apply (subst resolveTypeText.simps)
    apply (simp only: Let_def)
    apply (intro if_returns case_option_returns bind_returns members entries deeper Some_returns)
    done
qed

lemma resolveTypeText_beyond:
  "MAX_RESOLVE_DEPTH < d \<Longrightarrow> resolveTypeText env t d = Some (getText (env t))"
  by (subst resolveTypeText.simps) (simp add: Let_def)

text \<open>
  C4. \<^const>\<open>resolveTypeText\<close> returns for every checker, handle and depth, also when the
  types refer to themselves; a call at a depth greater than 10 returns the checker's text
  of the type, without a recursive call.
\<close>

theorem resolveTypeText_terminates:
  "(\<exists>s. resolveTypeText env type depth = Some s) \<and>
   (10 < depth \<longrightarrow> resolveTypeText env type depth = Some (getText (env type)))"
  using resolveTypeText_returns [of env type depth] resolveTypeText_beyond [of depth env type]
  by (simp add: MAX_RESOLVE_DEPTH_def)

theorem resolveTypeText_terminates_witness:
  "(10::nat) < 11 \<and> (\<exists>s. resolveTypeText selfRef 0 11 = Some s) \<and>
   resolveTypeText selfRef 0 11 = Some ''{ next?: Node | undefined | undefined; }''"
  using resolveTypeText_terminates [of selfRef 0 11]
  by (simp add: selfRef_def plain_def)

section \<open>Union types\<close>

text \<open>
  The union branch in the spec's words: the members' strings with duplicates removed, each
  kept where it first occurs, and \<^verbatim>\<open>null\<close> and \<^verbatim>\<open>undefined\<close> moved behind the others,
  the order otherwise kept.
\<close>

primrec dedupFirst :: "string list \<Rightarrow> string list" where
  "dedupFirst [] = []"
| "dedupFirst (x # xs) = x # filter (\<lambda>y. y \<noteq> x) (dedupFirst xs)"

definition nullishLast :: "string list \<Rightarrow> string list" where
  "nullishLast xs =
     filter (\<lambda>p. p \<noteq> ''null'' \<and> p \<noteq> ''undefined'') xs
     @ filter (\<lambda>p. p = ''null'' \<or> p = ''undefined'') xs"

definition booleanEx :: checker where
  \<comment> \<open>handle 0 is a union whose members have the texts undefined, false, string, true, null, false\<close>
  "booleanEx h =
     (if h = 0 then (plain ''string | boolean | null | undefined'')
                      \<lparr>isUnion := True, getUnionTypes := [1, 5, 2, 4, 3, 5]\<rparr>
      else if h = 1 then plain ''undefined''
      else if h = 2 then plain ''string''
      else if h = 3 then plain ''null''
      else if h = 4 then plain ''true''
      else plain ''false'')"

definition unionEx :: checker where
  \<comment> \<open>handle 0 is a union whose members have the texts undefined, string, null, string\<close>
  "unionEx h =
     (if h = 0 then (plain ''string | null | undefined'')\<lparr>isUnion := True, getUnionTypes := [1, 2, 3, 2]\<rparr>
      else if h = 1 then plain ''undefined''
      else if h = 2 then plain ''string''
      else plain ''null'')"

lemma dedupFirst_filter: "dedupFirst (filter P xs) = filter P (dedupFirst xs)"
proof (induction xs)
  case Nil show ?case by simp
next
  case (Cons a xs)
  show ?case
  proof (cases "P a")
    case True
    then show ?thesis using Cons by (simp add: conj_commute)
  next
    case False
    then have "filter P (filter (\<lambda>y. y \<noteq> a) ys) = filter P ys" for ys
      by (induction ys) auto
    with False Cons show ?thesis by simp
  qed
qed

lemma fold_spreadSet:
  "fold (\<lambda>p acc. if p \<in> set acc then acc else acc @ [p]) xs acc
     = acc @ dedupFirst (filter (\<lambda>x. x \<notin> set acc) xs)"
proof (induction xs arbitrary: acc)
  case Nil show ?case by simp
next
  case (Cons x xs)
  show ?case
  proof (cases "x \<in> set acc")
    case True
    then show ?thesis using Cons [of acc] by simp
  next
    case False
    have "filter (\<lambda>y. y \<notin> set (acc @ [x])) xs = filter (\<lambda>y. y \<noteq> x) (filter (\<lambda>y. y \<notin> set acc) xs)"
      by (induction xs) auto
    then show ?thesis using False Cons [of "acc @ [x]"] by (simp add: dedupFirst_filter)
  qed
qed

lemma spreadSet_dedupFirst: "spreadSet parts = dedupFirst parts"
  by (simp add: spreadSet_def fold_spreadSet)

lemma set_dedupFirst: "set (dedupFirst xs) = set xs"
  by (induction xs) auto

lemma distinct_dedupFirst: "distinct (dedupFirst xs)"
  by (induction xs) (auto simp: set_dedupFirst)

lemma insertBy_concrete: "\<not> nullish x \<Longrightarrow> insertBy nullishCompare x ys = x # ys"
  by (cases ys) (simp_all add: nullishCompare_def)

lemma insertBy_nullish:
  "nullish x \<Longrightarrow> list_all (\<lambda>y. \<not> nullish y) as \<Longrightarrow> list_all nullish bs \<Longrightarrow>
   insertBy nullishCompare x (as @ bs) = as @ x # bs"
proof (induction as)
  case Nil
  then show ?case by (cases bs) (simp_all add: nullishCompare_def)
next
  case (Cons a as)
  then show ?case by (simp add: nullishCompare_def)
qed

lemma nullishLast_nullish: "nullishLast xs = filter (\<lambda>p. \<not> nullish p) xs @ filter nullish xs"
proof -
  have a: "(\<lambda>p. p \<noteq> ''null'' \<and> p \<noteq> ''undefined'') = (\<lambda>p. \<not> nullish p)"
    by (rule ext) (simp add: nullish_def)
  have b: "(\<lambda>p. p = ''null'' \<or> p = ''undefined'') = nullish"
    by (rule ext) (simp add: nullish_def)
  show ?thesis unfolding nullishLast_def a b ..
qed

lemma sortBy_nullishLast: "sortBy nullishCompare xs = nullishLast xs"
proof (induction xs)
  case Nil show ?case by (simp add: sortBy_def nullishLast_nullish)
next
  case (Cons x xs)
  have step: "sortBy nullishCompare (x # xs) = insertBy nullishCompare x (nullishLast xs)"
    using Cons by (simp add: sortBy_def)
  show ?case
  proof (cases "nullish x")
    case True
    have "insertBy nullishCompare x (filter (\<lambda>p. \<not> nullish p) xs @ filter nullish xs)
          = filter (\<lambda>p. \<not> nullish p) xs @ x # filter nullish xs"
      by (rule insertBy_nullish [OF True]) (simp_all add: list_all_iff)
    with True step show ?thesis by (simp add: nullishLast_nullish)
  next
    case False
    with step show ?thesis by (simp add: insertBy_concrete nullishLast_nullish)
  qed
qed

lemma resolveTypeText_union:
  assumes "d \<le> MAX_RESOLVE_DEPTH" "\<not> isArray (env t)" "\<not> isTuple (env t)" "isUnion (env t)"
  shows "resolveTypeText env t d = do {
       parts \<leftarrow> mapM (\<lambda>t. resolveTypeText env t (d + 1)) (getUnionTypes (env t));
       Some (join '' | '' (sortBy nullishCompare (collapseBoolean (spreadSet parts))))
     }"
  using assms by (subst resolveTypeText.simps) (simp add: Let_def)

lemma members_return:
  "\<exists>ys. mapM (\<lambda>t. resolveTypeText env t d) xs = Some ys \<and> length ys = length xs"
  using mapM_returns [of "\<lambda>t. resolveTypeText env t d" xs] resolveTypeText_returns by blast

lemma distinct_one:
  assumes "distinct xs" "set xs = {a}"
  shows "xs = [a]"
proof -
  have "length xs = 1" using distinct_card [OF assms(1)] assms(2) by simp
  then obtain x where "xs = [x]" by (auto simp: length_Suc_conv)
  with assms(2) show ?thesis by simp
qed

lemma distinct_two:
  assumes "distinct xs" "set xs = {a, b}" "a \<noteq> b"
  shows "xs = [a, b] \<or> xs = [b, a]"
proof -
  have "length xs = 2" using distinct_card [OF assms(1)] assms(2,3) by simp
  then obtain x y where "xs = [x, y]" by (auto simp: length_Suc_conv numeral_2_eq_2)
  with assms(2) show ?thesis by (auto simp: doubleton_eq_iff)
qed

lemma three_members:
  assumes "distinct u" "set u = {''string'', ''null'', ''undefined''}"
  shows "nullishLast u = [''string'', ''null'', ''undefined''] \<or>
         nullishLast u = [''string'', ''undefined'', ''null'']"
proof -
  have "set (filter (\<lambda>p. \<not> nullish p) u) = {''string''}"
    using assms(2) by (auto simp: nullish_def)
  then have c: "filter (\<lambda>p. \<not> nullish p) u = [''string'']"
    using distinct_one [of "filter (\<lambda>p. \<not> nullish p) u"] assms(1) by simp
  have "set (filter nullish u) = {''null'', ''undefined''}"
    using assms(2) by (auto simp: nullish_def)
  then have "filter nullish u = [''null'', ''undefined''] \<or> filter nullish u = [''undefined'', ''null'']"
    using distinct_two [of "filter nullish u" "''null''" "''undefined''"] assms(1) by simp
  with c show ?thesis by (auto simp: nullishLast_nullish)
qed

text \<open>
  C5. For a union reached at a depth of at most 10 (after the array and tuple tests), the
  members are normalized one level deeper and duplicates are removed, each string kept
  where it first occurs. If \<^verbatim>\<open>true\<close> and \<^verbatim>\<open>false\<close> are both among them, the two are
  removed and one \<^verbatim>\<open>boolean\<close> is put at the end; otherwise the members stay as they
  are. Then \<^verbatim>\<open>null\<close> and \<^verbatim>\<open>undefined\<close> are moved behind the others, the order
  otherwise kept, and the result is joined with \<^verbatim>\<open> | \<close>. When the members are string,
  null and undefined, in any order and with any repetition, string comes first.
\<close>

theorem union_canonical:
  assumes "depth \<le> 10" "\<not> isArray (env type)" "\<not> isTuple (env type)" "isUnion (env type)"
  shows "\<exists>parts members.
     mapM (\<lambda>t. resolveTypeText env t (depth + 1)) (getUnionTypes (env type)) = Some parts \<and>
     resolveTypeText env type depth = Some (join '' | '' (nullishLast members)) \<and>
     (''true'' \<in> set parts \<and> ''false'' \<in> set parts \<longrightarrow>
        members = filter (\<lambda>p. p \<noteq> ''true'' \<and> p \<noteq> ''false'') (dedupFirst parts) @ [''boolean'']) \<and>
     (\<not> (''true'' \<in> set parts \<and> ''false'' \<in> set parts) \<longrightarrow> members = dedupFirst parts) \<and>
     (set parts = {''string'', ''null'', ''undefined''} \<longrightarrow>
        resolveTypeText env type depth = Some ''string | null | undefined'' \<or>
        resolveTypeText env type depth = Some ''string | undefined | null'')"
proof -
  obtain parts where parts:
    "mapM (\<lambda>t. resolveTypeText env t (depth + 1)) (getUnionTypes (env type)) = Some parts"
    using members_return by blast
  define members where "members = collapseBoolean (dedupFirst parts)"
  have d: "depth \<le> MAX_RESOLVE_DEPTH" using assms(1) by (simp add: MAX_RESOLVE_DEPTH_def)
  have res: "resolveTypeText env type depth = Some (join '' | '' (nullishLast members))"
    using resolveTypeText_union [of depth env type] d assms(2,3,4) parts
    by (simp add: sortBy_nullishLast spreadSet_dedupFirst members_def)
  have both: "members = filter (\<lambda>p. p \<noteq> ''true'' \<and> p \<noteq> ''false'') (dedupFirst parts) @ [''boolean'']"
    if "''true'' \<in> set parts \<and> ''false'' \<in> set parts"
    using that by (simp add: members_def collapseBoolean_def set_dedupFirst conj_commute)
  have other: "members = dedupFirst parts"
    if "\<not> (''true'' \<in> set parts \<and> ''false'' \<in> set parts)"
    using that by (auto simp add: members_def collapseBoolean_def set_dedupFirst)
  have three: "resolveTypeText env type depth = Some ''string | null | undefined'' \<or>
        resolveTypeText env type depth = Some ''string | undefined | null''"
    if s: "set parts = {''string'', ''null'', ''undefined''}"
  proof -
    have sd: "set (dedupFirst parts) = {''string'', ''null'', ''undefined''}"
      using s by (simp add: set_dedupFirst)
    have "''true'' \<notin> set parts" using s by simp
    then have cb: "members = dedupFirst parts" using other by blast
    have j1: "join '' | '' [''string'', ''null'', ''undefined''] = ''string | null | undefined''"
      by simp
    have j2: "join '' | '' [''string'', ''undefined'', ''null''] = ''string | undefined | null''"
      by simp
    from three_members [OF distinct_dedupFirst sd] show ?thesis
    proof
      assume "nullishLast (dedupFirst parts) = [''string'', ''null'', ''undefined'']"
      then show ?thesis by (simp only: res cb j1) simp
    next
      assume "nullishLast (dedupFirst parts) = [''string'', ''undefined'', ''null'']"
      then show ?thesis by (simp only: res cb j2) simp
    qed
  qed
  from parts res both other three show ?thesis by blast
qed

theorem union_canonical_witness:
  "(0::nat) \<le> 10 \<and> \<not> isArray (unionEx 0) \<and> \<not> isTuple (unionEx 0) \<and> isUnion (unionEx 0) \<and>
   mapM (\<lambda>t. resolveTypeText unionEx t (0 + 1)) (getUnionTypes (unionEx 0))
     = Some [''undefined'', ''string'', ''null'', ''string''] \<and>
   resolveTypeText unionEx 0 0 = Some ''string | undefined | null'' \<and>
   \<not> isArray (booleanEx 0) \<and> \<not> isTuple (booleanEx 0) \<and> isUnion (booleanEx 0) \<and>
   mapM (\<lambda>t. resolveTypeText booleanEx t (0 + 1)) (getUnionTypes (booleanEx 0))
     = Some [''undefined'', ''false'', ''string'', ''true'', ''null'', ''false''] \<and>
   resolveTypeText booleanEx 0 0 = Some ''string | boolean | undefined | null''"
proof -
  have h: "(0::nat) \<le> 10" "\<not> isArray (unionEx 0)" "\<not> isTuple (unionEx 0)" "isUnion (unionEx 0)"
    by (simp_all add: unionEx_def plain_def)
  have m: "mapM (\<lambda>t. resolveTypeText unionEx t (0 + 1)) (getUnionTypes (unionEx 0))
     = Some [''undefined'', ''string'', ''null'', ''string'']"
    by code_simp
  from union_canonical [of 0 unionEx 0] h obtain parts members where u:
    "mapM (\<lambda>t. resolveTypeText unionEx t (0 + 1)) (getUnionTypes (unionEx 0)) = Some parts"
    "resolveTypeText unionEx 0 0 = Some (join '' | '' (nullishLast members))"
    "\<not> (''true'' \<in> set parts \<and> ''false'' \<in> set parts) \<longrightarrow> members = dedupFirst parts"
    by blast
  from u(1) m have p: "parts = [''undefined'', ''string'', ''null'', ''string'']" by simp
  with u(3) have "members = dedupFirst [''undefined'', ''string'', ''null'', ''string'']" by simp
  with u(2) have r1: "resolveTypeText unionEx 0 0 = Some ''string | undefined | null''"
    by (simp add: nullishLast_def)
  have g: "\<not> isArray (booleanEx 0)" "\<not> isTuple (booleanEx 0)" "isUnion (booleanEx 0)"
    by (simp_all add: booleanEx_def plain_def)
  have n: "mapM (\<lambda>t. resolveTypeText booleanEx t (0 + 1)) (getUnionTypes (booleanEx 0))
     = Some [''undefined'', ''false'', ''string'', ''true'', ''null'', ''false'']"
    by code_simp
  from union_canonical [of 0 booleanEx 0] h(1) g obtain parts' members' where b:
    "mapM (\<lambda>t. resolveTypeText booleanEx t (0 + 1)) (getUnionTypes (booleanEx 0)) = Some parts'"
    "resolveTypeText booleanEx 0 0 = Some (join '' | '' (nullishLast members'))"
    "''true'' \<in> set parts' \<and> ''false'' \<in> set parts' \<longrightarrow>
        members' = filter (\<lambda>p. p \<noteq> ''true'' \<and> p \<noteq> ''false'') (dedupFirst parts') @ [''boolean'']"
    by blast
  from b(1) n have q: "parts' = [''undefined'', ''false'', ''string'', ''true'', ''null'', ''false'']"
    by simp
  with b(3) have "members' = filter (\<lambda>p. p \<noteq> ''true'' \<and> p \<noteq> ''false'')
       (dedupFirst [''undefined'', ''false'', ''string'', ''true'', ''null'', ''false'']) @ [''boolean'']"
    by simp
  with b(2) have r2: "resolveTypeText booleanEx 0 0 = Some ''string | boolean | undefined | null''"
    by (simp add: nullishLast_def)
  from h m r1 g n r2 show ?thesis by simp
qed

section \<open>Totality of resolveTypeText\<close>

text \<open>
  C9. \<^const>\<open>resolveTypeText\<close> returns a string for every checker, handle and depth, and
  where no rule applies (no array, tuple, union, intersection, known generic or object) the
  string is the checker's text of the type. The checker's own queries are taken to return.
\<close>

theorem resolveTypeText_total:
  "resolveTypeText env type depth \<noteq> None \<and>
   (\<not> isArray (env type) \<and> \<not> isTuple (env type) \<and> \<not> isUnion (env type) \<and>
    \<not> isIntersection (env type) \<and> knownGenericName (env type) = None \<and> \<not> isObject (env type)
    \<longrightarrow> resolveTypeText env type depth = Some (getText (env type)))"
proof -
  have "resolveTypeText env type depth \<noteq> None"
    using resolveTypeText_returns [of env type depth] by auto
  moreover have "resolveTypeText env type depth = Some (getText (env type))"
    if "\<not> isArray (env type)" "\<not> isTuple (env type)" "\<not> isUnion (env type)"
       "\<not> isIntersection (env type)" "knownGenericName (env type) = None" "\<not> isObject (env type)"
    using that by (subst resolveTypeText.simps) (simp add: Let_def)
  ultimately show ?thesis by blast
qed

theorem resolveTypeText_total_witness:
  "\<not> isArray (unionEx 2) \<and> \<not> isTuple (unionEx 2) \<and> \<not> isUnion (unionEx 2) \<and>
   \<not> isIntersection (unionEx 2) \<and> knownGenericName (unionEx 2) = None \<and> \<not> isObject (unionEx 2) \<and>
   resolveTypeText unionEx 2 0 \<noteq> None \<and> resolveTypeText unionEx 2 0 = Some ''string''"
  using resolveTypeText_total [of unionEx 2 0]
  by (simp add: unionEx_def plain_def knownGenericName_def)

section \<open>Structurally expanded arrays\<close>

definition arrayEx :: checker where
  \<comment> \<open>handle 0 is an object with a number index of type string and twelve of the sixteen
      fingerprint names among its properties\<close>
  "arrayEx h =
     (if h = 0 then
        (plain ''{ [n: number]: string; length: number; push: (...items: string[]) => number; }'')
          \<lparr>isObject := True, getNumberIndexType := Some 1,
           getProperties :=
             map (\<lambda>n. \<lparr>getName = n, isOptional = False, getTypeAtLocation = 2\<rparr>)
               [''length'', ''toString'', ''pop'', ''push'', ''concat'', ''join'', ''reverse'',
                ''shift'', ''slice'', ''sort'', ''splice'', ''unshift'', ''indexOf'', ''forEach'']\<rparr>
      else if h = 1 then plain ''string''
      else plain ''any'')"

lemma distinct_ARRAY_FINGERPRINT: "distinct ARRAY_FINGERPRINT \<and> length ARRAY_FINGERPRINT = 16"
  by (simp add: ARRAY_FINGERPRINT_def)

lemma fingerprintMatched_card:
  "fingerprintMatched ty = card (set ARRAY_FINGERPRINT \<inter> getName ` set (getProperties ty))"
proof -
  have "fingerprintMatched ty
        = card ({fp. fp \<in> getName ` set (getProperties ty)} \<inter> set ARRAY_FINGERPRINT)"
    unfolding fingerprintMatched_def
    using distinct_length_filter [of ARRAY_FINGERPRINT] distinct_ARRAY_FINGERPRINT by simp
  then show ?thesis by (simp add: Int_commute)
qed

lemma resolveTypeText_expanded:
  assumes "d \<le> MAX_RESOLVE_DEPTH" "\<not> isArray (env t)" "\<not> isTuple (env t)" "\<not> isUnion (env t)"
    "\<not> isIntersection (env t)" "knownGenericName (env t) = None" "isObject (env t)"
    "expandedArrayElement (env t) = Some n"
  shows "resolveTypeText env t d = do {
       inner \<leftarrow> resolveTypeText env n (d + 1); Some (inner @ ''[]'') }"
  using assms by (subst resolveTypeText.simps) (simp add: Let_def)

text \<open>
  C7. An object type reached at a depth of at most 10 that is no array, tuple, union,
  intersection or known generic, has a number index type and has at least 12 of the 16
  fingerprint names (75 percent) among its property names, normalizes to \<^verbatim>\<open>E[]\<close>, where
  \<^verbatim>\<open>E\<close> is the number index type normalized one level deeper.
\<close>

theorem expanded_array_collapses:
  assumes "depth \<le> 10" "isObject (env type)"
    "\<not> isArray (env type)" "\<not> isTuple (env type)" "\<not> isUnion (env type)"
    "\<not> isIntersection (env type)" "knownGenericName (env type) = None"
    "getNumberIndexType (env type) = Some numberIndexType"
    "12 \<le> card (set ARRAY_FINGERPRINT \<inter> getName ` set (getProperties (env type)))"
  shows "\<exists>E. resolveTypeText env numberIndexType (depth + 1) = Some E \<and>
             resolveTypeText env type depth = Some (E @ ''[]'')"
proof -
  have d: "depth \<le> MAX_RESOLVE_DEPTH" using assms(1) by (simp add: MAX_RESOLVE_DEPTH_def)
  have e: "expandedArrayElement (env type) = Some numberIndexType"
    using assms(8,9) distinct_ARRAY_FINGERPRINT
    by (simp add: expandedArrayElement_def fingerprintMatched_card)
  obtain E where E: "resolveTypeText env numberIndexType (depth + 1) = Some E"
    using resolveTypeText_returns by blast
  with resolveTypeText_expanded [of depth env type numberIndexType] d e assms(2-7)
  show ?thesis by simp
qed

theorem expanded_array_collapses_witness:
  "(0::nat) \<le> 10 \<and> isObject (arrayEx 0) \<and> \<not> isArray (arrayEx 0) \<and> \<not> isTuple (arrayEx 0) \<and>
   \<not> isUnion (arrayEx 0) \<and> \<not> isIntersection (arrayEx 0) \<and> knownGenericName (arrayEx 0) = None \<and>
   getNumberIndexType (arrayEx 0) = Some 1 \<and>
   12 \<le> card (set ARRAY_FINGERPRINT \<inter> getName ` set (getProperties (arrayEx 0))) \<and>
   resolveTypeText arrayEx 1 (0 + 1) = Some ''string'' \<and>
   resolveTypeText arrayEx 0 0 = Some ''string[]''"
proof -
  have h: "(0::nat) \<le> 10" "isObject (arrayEx 0)" "\<not> isArray (arrayEx 0)" "\<not> isTuple (arrayEx 0)"
   "\<not> isUnion (arrayEx 0)" "\<not> isIntersection (arrayEx 0)" "knownGenericName (arrayEx 0) = None"
   "getNumberIndexType (arrayEx 0) = Some 1"
    by (simp_all add: arrayEx_def plain_def knownGenericName_def)
  have c: "12 \<le> card (set ARRAY_FINGERPRINT \<inter> getName ` set (getProperties (arrayEx 0)))"
    by code_simp
  have r: "resolveTypeText arrayEx 1 (0 + 1) = Some ''string''"
    by code_simp
  from expanded_array_collapses [of 0 arrayEx 0 1] h c r
  have "resolveTypeText arrayEx 0 0 = Some ''string[]''" by simp
  with h c r show ?thesis by simp
qed

section \<open>Intersection types\<close>

definition propertyEntry :: "checker \<Rightarrow> nat \<Rightarrow> property \<Rightarrow> string option" where
  \<comment> \<open>one \<^verbatim>\<open>entries.push\<close> of the property loops\<close>
  "propertyEntry env depth prop = do {
     resolved \<leftarrow> resolveTypeText env (getTypeAtLocation prop) (depth + 1);
     Some (propertyKey (getName prop) @ (if isOptional prop then ''?'' else '''') @ '': '' @ resolved)
   }"

definition objectLiteral :: "string list \<Rightarrow> string" where
  "objectLiteral entries = ''{ '' @ join ''; '' entries @ '' }''"

definition visibleProperties :: "tstype \<Rightarrow> property list" where
  \<comment> \<open>the properties the loops do not skip\<close>
  "visibleProperties ty = filter (\<lambda>prop. \<not> startsWith (getName prop) ''__@'') (getProperties ty)"

definition allAnonymousObjects :: "checker \<Rightarrow> tstype \<Rightarrow> bool" where
  \<comment> \<open>every member is an anonymous object type and some member has properties\<close>
  "allAnonymousObjects env ty =
     (list_all (\<lambda>m. anonymousObject (env m)) (getIntersectionTypes ty)
      \<and> list_ex (\<lambda>m. length (getProperties (env m)) > 0) (getIntersectionTypes ty))"

definition joinedMembers :: "string list \<Rightarrow> string" where
  \<comment> \<open>the spec's second case: empty object literals dropped, duplicates removed, the rest
      joined, one survivor as it is, \<^verbatim>\<open>{}\<close> when nothing is left\<close>
  "joinedMembers parts =
     (let unique = dedupFirst (filter (\<lambda>p. p \<noteq> ''{}'') parts)
      in if unique = [] then ''{}''
         else if length unique = 1 then hd unique
         else join '' & '' unique)"

definition claimedIntersection :: "checker \<Rightarrow> handle \<Rightarrow> nat \<Rightarrow> string option" where
  \<comment> \<open>the intersection rule as the spec words it: the merged literal over the intersection's
      own properties whenever every member is an anonymous object and one has properties\<close>
  "claimedIntersection env type depth =
     (if allAnonymousObjects env (env type)
      then do {
        entries \<leftarrow> mapM (propertyEntry env depth) (getProperties (env type));
        Some (objectLiteral entries)
      }
      else do {
        parts \<leftarrow> mapM (\<lambda>t. resolveTypeText env t (depth + 1)) (getIntersectionTypes (env type));
        Some (joinedMembers parts)
      })"

definition symbolsEx :: checker where
  \<comment> \<open>\<^verbatim>\<open>{ [Symbol.iterator]: number } & { [Symbol.asyncIterator]: number }\<close> at handle 0\<close>
  "symbolsEx h =
     (if h = 0 then
        (plain ''{ [Symbol.iterator]: number; } & { [Symbol.asyncIterator]: number; }'')
          \<lparr>isIntersection := True, getIntersectionTypes := [1, 2],
           getProperties :=
             [\<lparr>getName = ''__@iterator@34'', isOptional = False, getTypeAtLocation = 3\<rparr>,
              \<lparr>getName = ''__@asyncIterator@36'', isOptional = False, getTypeAtLocation = 3\<rparr>]\<rparr>
      else if h = 1 then
        (plain ''{ [Symbol.iterator]: number; }'')
          \<lparr>isObject := True,
           getProperties :=
             [\<lparr>getName = ''__@iterator@34'', isOptional = False, getTypeAtLocation = 3\<rparr>]\<rparr>
      else if h = 2 then
        (plain ''{ [Symbol.asyncIterator]: number; }'')
          \<lparr>isObject := True,
           getProperties :=
             [\<lparr>getName = ''__@asyncIterator@36'', isOptional = False, getTypeAtLocation = 3\<rparr>]\<rparr>
      else plain ''number'')"

definition mergeEx :: checker where
  \<comment> \<open>\<^verbatim>\<open>{ id: number } & { "display-name"?: string }\<close> at handle 0\<close>
  "mergeEx h =
     (if h = 0 then
        (plain ''{ id: number; } & { name?: string; }'')
          \<lparr>isIntersection := True, getIntersectionTypes := [1, 2],
           getProperties :=
             [\<lparr>getName = ''id'', isOptional = False, getTypeAtLocation = 3\<rparr>,
              \<lparr>getName = ''display-name'', isOptional = True, getTypeAtLocation = 4\<rparr>]\<rparr>
      else if h = 1 then
        (plain ''{ id: number; }'')
          \<lparr>isObject := True,
           getProperties := [\<lparr>getName = ''id'', isOptional = False, getTypeAtLocation = 3\<rparr>]\<rparr>
      else if h = 2 then
        (plain (''{ '' @ [DQ] @ ''display-name'' @ [DQ] @ ''?: string; }''))
          \<lparr>isObject := True,
           getProperties :=
             [\<lparr>getName = ''display-name'', isOptional = True, getTypeAtLocation = 4\<rparr>]\<rparr>
      else if h = 3 then plain ''number''
      else plain ''string'')"

text \<open>
  The claim C6 as stated fails: both members below are anonymous objects with a property,
  yet every own property of the intersection has a name starting with \<^verbatim>\<open>__@\<close>, so no
  entry is produced and the members are joined with \<^verbatim>\<open> & \<close> instead of merged.
\<close>

theorem intersection_claim_counterexample:
  "allAnonymousObjects symbolsEx (symbolsEx 0) \<and>
   resolveTypeText symbolsEx 0 0
     = Some ''{ [Symbol.iterator]: number; } & { [Symbol.asyncIterator]: number; }'' \<and>
   resolveTypeText symbolsEx 0 0 \<noteq> claimedIntersection symbolsEx 0 0"
  by code_simp

lemma propertyEntry_returns: "\<exists>e. propertyEntry env depth prop = Some e"
  unfolding propertyEntry_def by (rule bind_returns) (rule resolveTypeText_returns, simp)

lemma entries_return:
  "\<exists>es. mapM (propertyEntry env depth) ps = Some es \<and> length es = length ps"
  using mapM_returns [of "propertyEntry env depth" ps] propertyEntry_returns by blast

text \<open>
  C6, amended. For an intersection reached at a depth of at most 10 (after the array, tuple
  and union tests): if every member is an anonymous object type, some member has
  properties, there is more than one member and some own property of the intersection has a
  name not starting with \<^verbatim>\<open>__@\<close>, the result is one object literal over those own
  properties; otherwise the members are normalized one by one, those that give \<^verbatim>\<open>{}\<close>
  are dropped, duplicates are removed and the rest is joined with \<^verbatim>\<open> & \<close>, a single
  survivor as it is, \<^verbatim>\<open>{}\<close> when nothing is left.
\<close>

theorem intersection_flatten_or_join:
  assumes "depth \<le> 10" "\<not> isArray (env type)" "\<not> isTuple (env type)" "\<not> isUnion (env type)"
    "isIntersection (env type)"
  shows "\<exists>entries parts.
     mapM (propertyEntry env depth) (visibleProperties (env type)) = Some entries \<and>
     mapM (\<lambda>t. resolveTypeText env t (depth + 1)) (getIntersectionTypes (env type)) = Some parts \<and>
     resolveTypeText env type depth
       = Some (if allAnonymousObjects env (env type) \<and> length (getIntersectionTypes (env type)) > 1
                  \<and> visibleProperties (env type) \<noteq> []
               then objectLiteral entries
               else joinedMembers parts)"
proof -
  have d: "depth \<le> MAX_RESOLVE_DEPTH" using assms(1) by (simp add: MAX_RESOLVE_DEPTH_def)
  obtain entries where entries:
    "mapM (propertyEntry env depth) (visibleProperties (env type)) = Some entries"
    "length entries = length (visibleProperties (env type))"
    using entries_return by blast
  obtain parts where parts:
    "mapM (\<lambda>t. resolveTypeText env t (depth + 1)) (getIntersectionTypes (env type)) = Some parts"
    using members_return by blast
  have "resolveTypeText env type depth
       = Some (if allAnonymousObjects env (env type) \<and> length (getIntersectionTypes (env type)) > 1
                  \<and> visibleProperties (env type) \<noteq> []
               then objectLiteral entries
               else joinedMembers parts)"
    using d assms(2-5) entries parts
    by (subst resolveTypeText.simps)
       (auto simp add: Let_def allAnonymousObjects_def visibleProperties_def objectLiteral_def
          joinedMembers_def spreadSet_dedupFirst propertyEntry_def [abs_def])
  with entries(1) parts show ?thesis by blast
qed

theorem intersection_flatten_or_join_witness:
  "(0::nat) \<le> 10 \<and> \<not> isArray (mergeEx 0) \<and> \<not> isTuple (mergeEx 0) \<and> \<not> isUnion (mergeEx 0) \<and>
   isIntersection (mergeEx 0) \<and> allAnonymousObjects mergeEx (mergeEx 0) \<and>
   resolveTypeText mergeEx 0 0 = Some (''{ id: number; '' @ [DQ] @ ''display-name'' @ [DQ] @ ''?: string }'')"
proof -
  have h: "(0::nat) \<le> 10" "\<not> isArray (mergeEx 0)" "\<not> isTuple (mergeEx 0)" "\<not> isUnion (mergeEx 0)"
    "isIntersection (mergeEx 0)"
    by (simp_all add: mergeEx_def plain_def)
  have c: "allAnonymousObjects mergeEx (mergeEx 0)"
    "length (getIntersectionTypes (mergeEx 0)) > 1" "visibleProperties (mergeEx 0) \<noteq> []"
    by code_simp+
  have e: "mapM (propertyEntry mergeEx 0) (visibleProperties (mergeEx 0))
        = Some [''id: number'', [DQ] @ ''display-name'' @ [DQ] @ ''?: string'']"
    by code_simp
  from intersection_flatten_or_join [of 0 mergeEx 0] h c e
  have "resolveTypeText mergeEx 0 0
        = Some (objectLiteral [''id: number'', [DQ] @ ''display-name'' @ [DQ] @ ''?: string''])"
    by auto
  then have "resolveTypeText mergeEx 0 0
        = Some (''{ id: number; '' @ [DQ] @ ''display-name'' @ [DQ] @ ''?: string }'')"
    by (simp add: objectLiteral_def)
  with h c show ?thesis by simp
qed

section \<open>parseParamsFromPath\<close>

text \<open>
  \<^verbatim>\<open>path.matchAll(/\/:([^/]+)/g)\<close>: at a slash followed by a colon and at least one
  character other than a slash, the name runs to the next slash, and the search goes on
  from there; at any other character it moves one character on.
\<close>

function matchParams :: "string \<Rightarrow> string list" where
  "matchParams [] = []"
| "matchParams (c # cs) =
     (if c = CHR ''/'' \<and> startsWith cs '':'' \<and> takeWhile (\<lambda>x. x \<noteq> CHR ''/'') (drop 1 cs) \<noteq> []
      then takeWhile (\<lambda>x. x \<noteq> CHR ''/'') (drop 1 cs)
             # matchParams (dropWhile (\<lambda>x. x \<noteq> CHR ''/'') (drop 1 cs))
      else matchParams cs)"
  by pat_completeness auto
termination
proof (relation "measure length")
  show "wf (measure length)" by simp
next
  fix c :: char and cs :: string
  have "length (dropWhile (\<lambda>x. x \<noteq> CHR ''/'') (drop 1 cs)) \<le> length (drop 1 cs)"
    by (rule length_dropWhile_le)
  then show "(dropWhile (\<lambda>x. x \<noteq> CHR ''/'') (drop 1 cs), c # cs) \<in> measure length"
    by simp
next
  fix c :: char and cs :: string
  show "(cs, c # cs) \<in> measure length" by simp
qed

definition parseParamsFromPath :: "string \<Rightarrow> string" where
  "parseParamsFromPath path =
     (let params = matchParams path in
      if length params \<noteq> 0
      then ''{'' @ join '', '' (map (\<lambda>name. name @ '': string'') params) @ ''}''
      else ''{}'')"

primrec splitOn :: "char \<Rightarrow> string \<Rightarrow> string list" where
  "splitOn d [] = [[]]"
| "splitOn d (c # cs) =
     (if c = d then [] # splitOn d cs
      else (case splitOn d cs of [] \<Rightarrow> [[c]] | s # ss \<Rightarrow> (c # s) # ss))"

definition slashSegments :: "string \<Rightarrow> string list" where
  "slashSegments path = tl (splitOn CHR ''/'' path)"

definition colonSegments :: "string list \<Rightarrow> string list" where
  "colonSegments segs = filter (\<lambda>seg. startsWith seg '':'' \<and> length seg > 1) segs"

definition claimedParams :: "string \<Rightarrow> string" where
  "claimedParams path =
     (let names = map (drop 1) (filter (\<lambda>seg. startsWith seg '':'') (splitOn CHR ''/'' path)) in
      if names = [] then ''{}''
      else ''{'' @ join '', '' (map (\<lambda>name. name @ '': string'') names) @ ''}'')"

text \<open>
  These follow the spec's words, to compare with: the path is cut at its slashes, and a parameter is a
  segment that starts with a colon. \<^const>\<open>claimedParams\<close> takes every such segment of the
  whole path; \<^const>\<open>slashSegments\<close> and \<^const>\<open>colonSegments\<close> keep those that follow a
  slash and have a name.
\<close>

lemma splitOn_nonempty: "splitOn d s \<noteq> []"
  by (induction s) (auto split: list.splits)

lemma splitOn_segment:
  "splitOn CHR ''/'' s
     = takeWhile (\<lambda>x. x \<noteq> CHR ''/'') s
       # (case dropWhile (\<lambda>x. x \<noteq> CHR ''/'') s of [] \<Rightarrow> [] | _ # r \<Rightarrow> splitOn CHR ''/'' r)"
proof (induction s)
  case Nil
  show ?case by simp
next
  case (Cons c cs)
  show ?case
  proof (cases "c = CHR ''/''")
    case True
    then show ?thesis by simp
  next
    case False
    then show ?thesis using Cons by simp
  qed
qed

lemma colon_head:
  assumes "startsWith cs '':''"
  shows "takeWhile (\<lambda>x. x \<noteq> CHR ''/'') cs = CHR '':'' # takeWhile (\<lambda>x. x \<noteq> CHR ''/'') (drop 1 cs)"
    and "dropWhile (\<lambda>x. x \<noteq> CHR ''/'') cs = dropWhile (\<lambda>x. x \<noteq> CHR ''/'') (drop 1 cs)"
  using assms by (cases cs; simp add: startsWith_def)+

lemma not_colon_head:
  assumes "\<not> startsWith cs '':''"
  shows "\<not> startsWith (takeWhile (\<lambda>x. x \<noteq> CHR ''/'') cs) '':''"
  using assms by (cases cs) (simp_all add: startsWith_def)

lemma splitOn_rest:
  "splitOn CHR ''/'' cs
     = takeWhile (\<lambda>x. x \<noteq> CHR ''/'') cs # slashSegments (dropWhile (\<lambda>x. x \<noteq> CHR ''/'') cs)"
proof (cases "dropWhile (\<lambda>x. x \<noteq> CHR ''/'') cs")
  case Nil
  have "splitOn CHR ''/'' cs = takeWhile (\<lambda>x. x \<noteq> CHR ''/'') cs # []"
    by (subst splitOn_segment) (simp only: Nil list.case)
  moreover have "slashSegments [] = []" by (simp add: slashSegments_def)
  ultimately show ?thesis by (simp only: Nil)
next
  case (Cons a r)
  then have a: "a = CHR ''/''" using hd_dropWhile [of "\<lambda>x. x \<noteq> CHR ''/''" cs] by auto
  have "splitOn CHR ''/'' cs = takeWhile (\<lambda>x. x \<noteq> CHR ''/'') cs # splitOn CHR ''/'' r"
    by (subst splitOn_segment) (simp only: Cons list.case)
  moreover have "slashSegments (a # r) = splitOn CHR ''/'' r"
    using a by (simp add: slashSegments_def)
  ultimately show ?thesis by (simp only: Cons)
qed

lemma matchParams_segments:
  "matchParams s = map (drop 1) (colonSegments (slashSegments s))"
proof (induction s rule: matchParams.induct)
  case 1
  show ?case by (simp add: slashSegments_def colonSegments_def)
next
  case (2 c cs)
  let ?seg = "takeWhile (\<lambda>x. x \<noteq> CHR ''/'') cs"
  let ?rest = "dropWhile (\<lambda>x. x \<noteq> CHR ''/'') cs"
  show ?case
  proof (cases "c = CHR ''/''")
    case False
    then have m: "matchParams (c # cs) = matchParams cs" by simp
    have "slashSegments (c # cs) = slashSegments cs"
      using False splitOn_nonempty [of "CHR ''/''" cs]
      by (cases "splitOn CHR ''/'' cs") (simp_all add: slashSegments_def)
    with m "2.IH"(2) False show ?thesis by simp
  next
    case True
    have segs: "slashSegments (c # cs) = ?seg # slashSegments ?rest"
      using True splitOn_rest [of cs] by (simp add: slashSegments_def)
    have tl: "slashSegments cs = slashSegments ?rest"
      using splitOn_rest [of cs] by (simp add: slashSegments_def)
    show ?thesis
    proof (cases "startsWith cs '':'' \<and> takeWhile (\<lambda>x. x \<noteq> CHR ''/'') (drop 1 cs) \<noteq> []")
      case param: True
      then have m: "matchParams (c # cs) = takeWhile (\<lambda>x. x \<noteq> CHR ''/'') (drop 1 cs)
                     # matchParams (dropWhile (\<lambda>x. x \<noteq> CHR ''/'') (drop 1 cs))"
        using True by simp
      have ih: "matchParams (dropWhile (\<lambda>x. x \<noteq> CHR ''/'') (drop 1 cs))
             = map (drop 1) (colonSegments (slashSegments (dropWhile (\<lambda>x. x \<noteq> CHR ''/'') (drop 1 cs))))"
        using "2.IH"(1) True param by simp
      from param colon_head [of cs]
      have seg: "?seg = CHR '':'' # takeWhile (\<lambda>x. x \<noteq> CHR ''/'') (drop 1 cs)"
        and rest: "?rest = dropWhile (\<lambda>x. x \<noteq> CHR ''/'') (drop 1 cs)" by simp_all
      have "colonSegments (?seg # slashSegments ?rest) = ?seg # colonSegments (slashSegments ?rest)"
        using param seg by (simp add: colonSegments_def startsWith_def)
      with m ih segs seg rest show ?thesis by simp
    next
      case noparam: False
      then have m: "matchParams (c # cs) = matchParams cs" by auto
      have "\<not> (startsWith ?seg '':'' \<and> length ?seg > 1)"
      proof (cases "startsWith cs '':''")
        case False
        then show ?thesis using not_colon_head by blast
      next
        case True
        with noparam colon_head(1) [OF True] show ?thesis by simp
      qed
      then have "colonSegments (?seg # slashSegments ?rest) = colonSegments (slashSegments ?rest)"
        by (simp add: colonSegments_def)
      with m "2.IH"(2) True noparam segs tl show ?thesis by simp
    qed
  qed
qed

text \<open>
  The claim C8 as stated fails on a path whose first segment is a parameter: no slash
  precedes the colon, and the result is the empty object.
\<close>

theorem parseParamsFromPath_leading_parameter:
  "parseParamsFromPath '':id/posts'' = ''{}'' \<and> claimedParams '':id/posts'' = ''{id: string}''"
  by (simp add: parseParamsFromPath_def claimedParams_def startsWith_def)

text \<open>
  C8, amended. For every path, the result maps to string, in path order, the name of each
  segment that follows a slash and consists of a colon and a non-empty name, and is
  \<^verbatim>\<open>{}\<close> when there is none; the two examples of the spec hold.
\<close>

theorem parseParamsFromPath_segments:
  "parseParamsFromPath path =
     (let names = map (drop 1) (colonSegments (slashSegments path)) in
      if names = [] then ''{}''
      else ''{'' @ join '', '' (map (\<lambda>name. name @ '': string'') names) @ ''}'') \<and>
   parseParamsFromPath ''/users/:id/posts/:postId'' = ''{id: string, postId: string}'' \<and>
   parseParamsFromPath ''/health'' = ''{}''"
proof -
  have "parseParamsFromPath path =
     (let names = map (drop 1) (colonSegments (slashSegments path)) in
      if names = [] then ''{}''
      else ''{'' @ join '', '' (map (\<lambda>name. name @ '': string'') names) @ ''}'')"
    by (simp add: parseParamsFromPath_def matchParams_segments Let_def)
  moreover have "parseParamsFromPath ''/users/:id/posts/:postId'' = ''{id: string, postId: string}''"
    by (simp add: parseParamsFromPath_def startsWith_def)
  moreover have "parseParamsFromPath ''/health'' = ''{}''"
    by (simp add: parseParamsFromPath_def startsWith_def)
  ultimately show ?thesis by blast
qed

section \<open>prettyPrintType\<close>

text \<open>
  \<^verbatim>\<open>"  ".repeat(n)\<close> raises a RangeError for a negative count, which the printer reaches
  on a closing brace or bracket with nothing open. The error is a value of the model.
\<close>

datatype error = RangeError

definition repeat :: "string \<Rightarrow> int \<Rightarrow> error + string" where
  "repeat s n = (if n < 0 then Inl RangeError else Inr (concat (replicate (nat n) s)))"

record printer =
  chunks :: "string list"
  indent :: int
  inString :: bool
  escaped :: bool

definition printChar :: "printer \<Rightarrow> char \<Rightarrow> error + printer" where
  "printChar st char =
     (if escaped st then Inr (st\<lparr>chunks := chunks st @ [[char]], escaped := False\<rparr>)
      else if char = BSL then Inr (st\<lparr>chunks := chunks st @ [[char]], escaped := True\<rparr>)
      else if char = DQ \<or> char = SQ
        then Inr (st\<lparr>inString := \<not> inString st, chunks := chunks st @ [[char]]\<rparr>)
      else if inString st then Inr (st\<lparr>chunks := chunks st @ [[char]]\<rparr>)
      else if char = CHR ''{'' \<or> char = CHR ''[''
        then (case repeat ''  '' (indent st + 1) of
                Inl e \<Rightarrow> Inl e
              | Inr pad \<Rightarrow> Inr (st\<lparr>indent := indent st + 1,
                                     chunks := chunks st @ [[char], [NL], pad]\<rparr>))
      else if char = CHR ''}'' \<or> char = CHR '']''
        then (case repeat ''  '' (indent st - 1) of
                Inl e \<Rightarrow> Inl e
              | Inr pad \<Rightarrow> Inr (st\<lparr>indent := indent st - 1,
                                     chunks := chunks st @ [[NL], pad, [char]]\<rparr>))
      else if char = CHR '';'' \<or> char = CHR '',''
        then (case repeat ''  '' (indent st) of
                Inl e \<Rightarrow> Inl e
              | Inr pad \<Rightarrow> Inr (st\<lparr>chunks := chunks st @ [[char], [NL], pad]\<rparr>))
      else if char = CHR '' '' \<and> chunks st \<noteq> [] \<and> last (chunks st) = '' '' then Inr st
      else Inr (st\<lparr>chunks := chunks st @ [[char]]\<rparr>))"

fun printChars :: "printer \<Rightarrow> string \<Rightarrow> error + printer" where
  "printChars st [] = Inr st"
| "printChars st (char # rest) =
     (case printChar st char of Inl e \<Rightarrow> Inl e | Inr st' \<Rightarrow> printChars st' rest)"

function collapseBlank :: "string \<Rightarrow> string" where
  "collapseBlank [] = []"
| "collapseBlank (c # cs) =
     (if (c = CHR '';'' \<or> c = CHR '','') \<and> startsWith cs [NL]
         \<and> NL \<in> set (takeWhile isSpace (drop 1 cs))
         \<and> (startsWith (dropWhile isSpace (drop 1 cs)) ''}''
              \<or> startsWith (dropWhile isSpace (drop 1 cs)) '']'')
      then c # NL # rev (takeWhile (\<lambda>x. x \<noteq> NL) (rev (takeWhile isSpace (drop 1 cs))))
             @ take 1 (dropWhile isSpace (drop 1 cs))
             @ collapseBlank (drop 1 (dropWhile isSpace (drop 1 cs)))
      else c # collapseBlank cs)"
  by pat_completeness auto
termination
proof (relation "measure length")
  show "wf (measure length)" by simp
next
  fix c :: char and cs :: string
  have "length (dropWhile isSpace (drop 1 cs)) \<le> length (drop 1 cs)"
    by (rule length_dropWhile_le)
  then show "(drop 1 (dropWhile isSpace (drop 1 cs)), c # cs) \<in> measure length"
    by simp
next
  fix c :: char and cs :: string
  show "(cs, c # cs) \<in> measure length" by simp
qed

definition prettyPrintType :: "string \<Rightarrow> error + string" where
  "prettyPrintType typeStr =
     (case printChars \<lparr>chunks = [], indent = 0, inString = False, escaped = False\<rparr> typeStr of
        Inl e \<Rightarrow> Inl e
      | Inr st \<Rightarrow> Inr (trim (collapseBlank (concat (chunks st)))))"

subsection \<open>Strings without structure characters\<close>

text \<open>
  On a string with none of the characters \<^verbatim>\<open>{ } [ ] ; ,\<close> the printer only drops a
  space that follows a space chunk outside string literals. The function squeeze below is that
  effect, on the three flags the printer decides by: the last chunk is one space, inside a
  string literal, after a backslash.
\<close>

definition flat :: "string \<Rightarrow> bool" where
  "flat s = list_all (\<lambda>c. c \<notin> set ''{}[];,'') s"

type_synonym mode = "bool \<times> bool \<times> bool"

definition flatStep :: "mode \<Rightarrow> char \<Rightarrow> string \<times> mode" where
  "flatStep m c =
     (case m of (l, i, e) \<Rightarrow>
        if e then ([c], (c = CHR '' '', i, False))
        else if c = BSL then ([c], (False, i, True))
        else if c = DQ \<or> c = SQ then ([c], (False, \<not> i, False))
        else if i then ([c], (c = CHR '' '', i, False))
        else if c = CHR '' '' \<and> l then ([], (l, i, e))
        else ([c], (c = CHR '' '', i, False)))"

fun squeeze :: "mode \<Rightarrow> string \<Rightarrow> string" where
  "squeeze m [] = []"
| "squeeze m (c # cs) = fst (flatStep m c) @ squeeze (snd (flatStep m c)) cs"

definition modeOf :: "printer \<Rightarrow> mode" where
  "modeOf st = (chunks st \<noteq> [] \<and> last (chunks st) = '' '', inString st, escaped st)"

lemma printChar_flat:
  assumes "c \<notin> set ''{}[];,''"
  shows "\<exists>st'. printChar st c = Inr st' \<and>
               concat (chunks st') = concat (chunks st) @ fst (flatStep (modeOf st) c) \<and>
               modeOf st' = snd (flatStep (modeOf st) c)"
  using assms
  by (auto simp: printChar_def flatStep_def modeOf_def BSL_def DQ_def SQ_def)

lemma printChars_flat:
  "flat s \<Longrightarrow> \<exists>st'. printChars st s = Inr st' \<and>
       concat (chunks st') = concat (chunks st) @ squeeze (modeOf st) s"
proof (induction s arbitrary: st)
  case Nil
  show ?case by simp
next
  case (Cons c cs)
  from Cons.prems have c: "c \<notin> set ''{}[];,''" and cs: "flat cs"
    by (simp_all add: flat_def)
  from printChar_flat [OF c, of st] obtain st1 where st1:
    "printChar st c = Inr st1"
    "concat (chunks st1) = concat (chunks st) @ fst (flatStep (modeOf st) c)"
    "modeOf st1 = snd (flatStep (modeOf st) c)"
    by blast
  from Cons.IH [OF cs, of st1] obtain st2 where
    "printChars st1 cs = Inr st2"
    "concat (chunks st2) = concat (chunks st1) @ squeeze (modeOf st1) cs"
    by blast
  with st1 show ?case by simp
qed

lemma set_squeeze: "set (squeeze m s) \<subseteq> set s"
proof (induction s arbitrary: m)
  case Nil show ?case by simp
next
  case (Cons c cs)
  have "set (fst (flatStep m c)) \<subseteq> {c}"
    by (cases m) (auto simp: flatStep_def)
  with Cons [of "snd (flatStep m c)"] show ?case by auto
qed

lemma length_squeeze: "length (squeeze m s) \<le> length s"
proof (induction s arbitrary: m)
  case Nil show ?case by simp
next
  case (Cons c cs)
  have "length (fst (flatStep m c)) \<le> 1"
    by (cases m) (auto simp: flatStep_def)
  with Cons [of "snd (flatStep m c)"] show ?case by simp
qed

lemma startsWith_member: "startsWith xs [d] \<Longrightarrow> d \<in> set xs"
  by (cases xs) (auto simp: startsWith_def)

lemma collapseBlank_flat:
  "CHR ''}'' \<notin> set s \<Longrightarrow> CHR '']'' \<notin> set s \<Longrightarrow> collapseBlank s = s"
proof (induction s rule: collapseBlank.induct)
  case 1
  show ?case by simp
next
  case (2 c cs)
  have sub: "set (dropWhile isSpace (drop 1 cs)) \<subseteq> set cs"
    by (meson in_set_dropD set_dropWhileD subsetI)
  have a: "\<not> startsWith (dropWhile isSpace (drop 1 cs)) ''}''"
    using startsWith_member [of "dropWhile isSpace (drop 1 cs)" "CHR ''}''"] sub "2.prems" by auto
  have b: "\<not> startsWith (dropWhile isSpace (drop 1 cs)) '']''"
    using startsWith_member [of "dropWhile isSpace (drop 1 cs)" "CHR '']''"] sub "2.prems" by auto
  have "collapseBlank cs = cs"
    using "2.IH"(2) "2.prems" a b by simp
  then show ?case using a b by simp
qed

lemma flatStep_cases:
  "(fst (flatStep m c) = [c] \<and> fst (snd (flatStep m c)) = (c = CHR '' '')) \<or>
   (fst (flatStep m c) = [] \<and> snd (flatStep m c) = m)"
proof -
  obtain l i e where m: "m = (l, i, e)" by (cases m) auto
  have n: "BSL \<noteq> CHR '' ''" "DQ \<noteq> CHR '' ''" "SQ \<noteq> CHR '' ''"
    by (simp_all add: BSL_def DQ_def SQ_def)
  show ?thesis unfolding m flatStep_def using n by (auto split: if_splits)
qed

lemma flatStep_unset:
  "fst (flatStep m c) = [c] \<Longrightarrow> flatStep (False, snd m) c = flatStep m c"
proof -
  obtain l i e where m: "m = (l, i, e)" by (cases m) auto
  have n: "BSL \<noteq> CHR '' ''" "DQ \<noteq> CHR '' ''" "SQ \<noteq> CHR '' ''"
    by (simp_all add: BSL_def DQ_def SQ_def)
  show "fst (flatStep m c) = [c] \<Longrightarrow> flatStep (False, snd m) c = flatStep m c"
    unfolding m flatStep_def using n by (auto split: if_splits)
qed

lemma squeeze_squeeze: "squeeze m (squeeze m s) = squeeze m s"
proof (induction s arbitrary: m)
  case Nil show ?case by simp
next
  case (Cons c cs)
  from flatStep_cases [of m c] show ?case
  proof
    assume "fst (flatStep m c) = [c] \<and> fst (snd (flatStep m c)) = (c = CHR '' '')"
    then show ?thesis using Cons [of "snd (flatStep m c)"] by simp
  next
    assume "fst (flatStep m c) = [] \<and> snd (flatStep m c) = m"
    then show ?thesis using Cons [of m] by simp
  qed
qed

lemma fixed_head:
  assumes "squeeze m (c # cs) = c # cs"
  shows "fst (flatStep m c) = [c] \<and> squeeze (snd (flatStep m c)) cs = cs"
proof -
  from flatStep_cases [of m c] show ?thesis
  proof
    assume k: "fst (flatStep m c) = [c] \<and> fst (snd (flatStep m c)) = (c = CHR '' '')"
    with assms show ?thesis by simp
  next
    assume "fst (flatStep m c) = [] \<and> snd (flatStep m c) = m"
    with assms have "squeeze m cs = c # cs" by simp
    then have "length (squeeze m cs) = Suc (length cs)" by simp
    with length_squeeze [of m cs] show ?thesis by simp
  qed
qed

lemma fixed_unset:
  assumes "squeeze m t = t"
  shows "squeeze (False, snd m) t = t"
proof (cases t)
  case Nil
  then show ?thesis by simp
next
  case (Cons c cs)
  from assms have "squeeze m (c # cs) = c # cs" by (simp only: Cons)
  from fixed_head [OF this]
  have k: "fst (flatStep m c) = [c]" and r: "squeeze (snd (flatStep m c)) cs = cs" by blast+
  have u: "flatStep (False, snd m) c = flatStep m c" by (rule flatStep_unset [OF k])
  have "squeeze (False, snd m) (c # cs) = fst (flatStep m c) @ squeeze (snd (flatStep m c)) cs"
    by (simp only: squeeze.simps u)
  also have "\<dots> = [c] @ cs" by (simp only: k r)
  finally show ?thesis by (simp only: Cons append_Cons append_Nil)
qed

lemma fixed_prefix: "squeeze m (xs @ ys) = xs @ ys \<Longrightarrow> squeeze m xs = xs"
proof (induction xs arbitrary: m)
  case Nil
  show ?case by simp
next
  case (Cons c xs)
  from Cons.prems have "squeeze m (c # (xs @ ys)) = c # (xs @ ys)" by (simp only: append_Cons)
  from fixed_head [OF this]
  have k: "fst (flatStep m c) = [c]"
    and r: "squeeze (snd (flatStep m c)) (xs @ ys) = xs @ ys" by blast+
  have i: "squeeze (snd (flatStep m c)) xs = xs" by (rule Cons.IH [OF r])
  have "squeeze m (c # xs) = fst (flatStep m c) @ squeeze (snd (flatStep m c)) xs"
    by (simp only: squeeze.simps)
  also have "\<dots> = [c] @ xs" by (simp only: k i)
  finally show ?case by (simp only: append_Cons append_Nil)
qed

lemma space_kept:
  "isSpace c \<Longrightarrow> fst (flatStep (False, False, False) c) = [c] \<Longrightarrow>
   snd (snd (flatStep (False, False, False) c)) = (False, False)"
proof -
  have "isSpace c \<Longrightarrow> c \<noteq> BSL \<and> c \<noteq> DQ \<and> c \<noteq> SQ"
    by (auto simp: isSpace_def BSL_def DQ_def SQ_def)
  then show "isSpace c \<Longrightarrow> fst (flatStep (False, False, False) c) = [c] \<Longrightarrow>
   snd (snd (flatStep (False, False, False) c)) = (False, False)"
    by (simp add: flatStep_def)
qed

lemma fixed_dropWhile:
  "squeeze (False, False, False) t = t \<Longrightarrow>
   squeeze (False, False, False) (dropWhile isSpace t) = dropWhile isSpace t"
proof (induction t)
  case Nil
  show ?case by simp
next
  case (Cons c cs)
  show ?case
  proof (cases "isSpace c")
    case False
    then have "dropWhile isSpace (c # cs) = c # cs" by simp
    with Cons.prems show ?thesis by (simp only:)
  next
    case True
    from fixed_head [OF Cons.prems]
    have k: "fst (flatStep (False, False, False) c) = [c]"
      and r: "squeeze (snd (flatStep (False, False, False) c)) cs = cs" by blast+
    have "squeeze (False, snd (snd (flatStep (False, False, False) c))) cs = cs"
      by (rule fixed_unset [OF r])
    then have "squeeze (False, False, False) cs = cs"
      by (simp only: space_kept [OF True k])
    then have "squeeze (False, False, False) (dropWhile isSpace cs) = dropWhile isSpace cs"
      by (rule Cons.IH)
    moreover have "dropWhile isSpace (c # cs) = dropWhile isSpace cs" using True by simp
    ultimately show ?thesis by (simp only:)
  qed
qed

lemma rev_split: "y = rev (dropWhile P (rev y)) @ rev (takeWhile P (rev y))"
proof -
  have "rev (takeWhile P (rev y) @ dropWhile P (rev y)) = rev (rev y)"
    by (simp only: takeWhile_dropWhile_id)
  then show ?thesis by (simp only: rev_append rev_rev_ident)
qed

lemma fixed_trim:
  assumes "squeeze (False, False, False) t = t"
  shows "squeeze (False, False, False) (trim t) = trim t"
proof -
  let ?y = "dropWhile isSpace t"
  have y: "squeeze (False, False, False) ?y = ?y" by (rule fixed_dropWhile [OF assms])
  have "?y = rev (dropWhile isSpace (rev ?y)) @ rev (takeWhile isSpace (rev ?y))"
    by (rule rev_split)
  with y fixed_prefix [of "(False, False, False)" "rev (dropWhile isSpace (rev ?y))"
      "rev (takeWhile isSpace (rev ?y))"]
  show ?thesis by (simp add: trim_def)
qed

lemma dropWhile_prefix_fixed:
  assumes "dropWhile P s = z @ w"
  shows "dropWhile P z = z"
proof (cases z)
  case Nil
  then show ?thesis by simp
next
  case (Cons a as)
  with assms have "dropWhile P s \<noteq> []" "hd (dropWhile P s) = a" by simp_all
  then have "\<not> P a" using hd_dropWhile [of P s] by auto
  with Cons show ?thesis by simp
qed

lemma trim_trim: "trim (trim s) = trim s"
proof -
  define y where "y = dropWhile isSpace s"
  define z where "z = rev (dropWhile isSpace (rev y))"
  have yz: "y = z @ rev (takeWhile isSpace (rev y))"
    unfolding z_def by (rule rev_split)
  have 1: "dropWhile isSpace z = z"
    using dropWhile_prefix_fixed [of isSpace s z] yz y_def by simp
  have 2: "dropWhile isSpace (rev z) = rev z"
    by (simp add: z_def dropWhile_idem)
  have "trim s = z" by (simp add: trim_def z_def y_def)
  moreover have "trim z = z" by (simp add: trim_def 1 2)
  ultimately show ?thesis by simp
qed

lemma set_trim: "set (trim s) \<subseteq> set s"
  unfolding trim_def by (metis (no_types) set_dropWhileD set_rev subsetI)

lemma flat_subset: "set t \<subseteq> set s \<Longrightarrow> flat s \<Longrightarrow> flat t"
  by (auto simp: flat_def list_all_iff)

lemma prettyPrintType_flat:
  assumes "flat s"
  shows "prettyPrintType s = Inr (trim (squeeze (False, False, False) s))"
proof -
  let ?st = "\<lparr>chunks = [], indent = 0, inString = False, escaped = False\<rparr>"
  from printChars_flat [OF assms, of ?st] obtain st' where st':
    "printChars ?st s = Inr st'"
    "concat (chunks st') = squeeze (False, False, False) s"
    by (auto simp: modeOf_def)
  have "set (squeeze (False, False, False) s) \<subseteq> set s" by (rule set_squeeze)
  with assms have "CHR ''}'' \<notin> set (squeeze (False, False, False) s)"
    "CHR '']'' \<notin> set (squeeze (False, False, False) s)"
    by (auto simp: flat_def list_all_iff)
  then have "collapseBlank (squeeze (False, False, False) s) = squeeze (False, False, False) s"
    by (rule collapseBlank_flat)
  with st' show ?thesis by (simp add: prettyPrintType_def)
qed

lemmas pp_eval = prettyPrintType_def printChar_def repeat_def trim_def isSpace_def startsWith_def
  NL_def DQ_def SQ_def BSL_def


text \<open>
  The claim C2 as stated fails on the empty object expression \<^verbatim>\<open>{}\<close>: the newline and
  the indentation that the first pass inserts are kept by the second pass, which inserts
  its own.
\<close>

theorem prettyPrintType_not_idempotent:
  "prettyPrintType ''{}'' = Inr (''{'' @ [NL] @ ''  '' @ [NL] @ ''}'') \<and>
   prettyPrintType (''{'' @ [NL] @ ''  '' @ [NL] @ ''}'')
     = Inr (''{'' @ [NL] @ ''  '' @ [NL] @ '' '' @ [NL, NL] @ ''}'')"
  by (simp add: pp_eval)


text \<open>
  C2, amended. For every string with none of the characters \<^verbatim>\<open>{ } [ ] ; ,\<close> the
  printer returns, and printing its output again returns the same string.
\<close>

theorem prettyPrintType_idempotent_flat:
  assumes "list_all (\<lambda>c. c \<notin> set ''{}[];,'') s"
  shows "\<exists>out. prettyPrintType s = Inr out \<and> prettyPrintType out = Inr out"
proof -
  have f: "flat s" using assms by (simp add: flat_def)
  let ?q = "squeeze (False, False, False) s"
  have 1: "prettyPrintType s = Inr (trim ?q)" by (rule prettyPrintType_flat [OF f])
  have "set (trim ?q) \<subseteq> set s" using set_trim [of ?q] set_squeeze [of _ s] by blast
  then have "flat (trim ?q)" using f by (rule flat_subset)
  then have "prettyPrintType (trim ?q) = Inr (trim (squeeze (False, False, False) (trim ?q)))"
    by (rule prettyPrintType_flat)
  also have "squeeze (False, False, False) (trim ?q) = trim ?q"
    by (rule fixed_trim) (rule squeeze_squeeze)
  finally have "prettyPrintType (trim ?q) = Inr (trim ?q)" by (simp add: trim_trim)
  with 1 show ?thesis by blast
qed

theorem prettyPrintType_idempotent_flat_witness:
  "list_all (\<lambda>c. c \<notin> set ''{}[];,'') ''string  |   null '' \<and>
   prettyPrintType ''string  |   null '' = Inr ''string | null'' \<and>
   prettyPrintType ''string | null'' = Inr ''string | null''"
proof -
  have h: "list_all (\<lambda>c. c \<notin> set ''{}[];,'') ''string  |   null ''" by simp
  have v: "prettyPrintType ''string  |   null '' = Inr ''string | null''"
    by (simp add: pp_eval)
  from prettyPrintType_idempotent_flat [OF h] obtain out where
    "prettyPrintType ''string  |   null '' = Inr out" "prettyPrintType out = Inr out" by blast
  with v have "prettyPrintType ''string | null'' = Inr ''string | null''" by simp
  with h v show ?thesis by blast
qed

section \<open>The usage snippet\<close>

record sdkConfig =
  sdkImport :: string
  sdkClientName :: string
  sdkClientOptions :: "string option"

definition HTTP_METHODS :: "string list" where
  "HTTP_METHODS = [''get'', ''post'', ''put'', ''delete'', ''patch'']"

definition INTERNAL_PROPS :: "string list" where
  "INTERNAL_PROPS =
     [''decorator'', ''store'', ''derive'', ''resolve'', ''schema'', ''standaloneSchema'', ''response'']"

definition toUpperCase :: "string \<Rightarrow> string" where
  \<comment> \<open>on the letters a to z; the source applies it to the five method names\<close>
  "toUpperCase s =
     map (\<lambda>c. case map_of (zip ''abcdefghijklmnopqrstuvwxyz'' ''ABCDEFGHIJKLMNOPQRSTUVWXYZ'') c of
                 None \<Rightarrow> c | Some u \<Rightarrow> u) s"

definition truthy :: "string option list \<Rightarrow> string list" where
  \<comment> \<open>\<^verbatim>\<open>xs.filter(Boolean)\<close> on an array of strings and \<^verbatim>\<open>false\<close>: the empty string goes too\<close>
  "truthy xs = concat (map (\<lambda>x. case x of None \<Rightarrow> [] | Some s \<Rightarrow> if s = [] then [] else [s]) xs)"

definition buildClientPath :: "string \<Rightarrow> string" where
  "buildClientPath path =
     foldl (\<lambda>chain segment.
              if startsWith segment '':'' then chain @ ''[params.'' @ drop 1 segment @ '']''
              else if VALID_IDENT segment then chain @ ''.'' @ segment
              else chain @ ''['' @ [DQ] @ segment @ [DQ] @ '']'')
       ''client'' (filter (\<lambda>segment. segment \<noteq> []) (splitOn CHR ''/'' path))"

function dropCommaBeforeBrace :: "string \<Rightarrow> string" where
  \<comment> \<open>\<^verbatim>\<open>s.replace(/,(\s*})/g, "$1")\<close>\<close>
  "dropCommaBeforeBrace [] = []"
| "dropCommaBeforeBrace (c # cs) =
     (if c = CHR '','' \<and> startsWith (dropWhile isSpace cs) ''}''
      then takeWhile isSpace cs @ ''}'' @ dropCommaBeforeBrace (drop 1 (dropWhile isSpace cs))
      else c # dropCommaBeforeBrace cs)"
  by pat_completeness auto
termination
proof (relation "measure length")
  show "wf (measure length)" by simp
next
  fix c :: char and cs :: string
  have "length (dropWhile isSpace cs) \<le> length cs" by (rule length_dropWhile_le)
  then show "(drop 1 (dropWhile isSpace cs), c # cs) \<in> measure length" by simp
next
  fix c :: char and cs :: string
  show "(cs, c # cs) \<in> measure length" by simp
qed

function exampleValues :: "string \<Rightarrow> string" where
  \<comment> \<open>\<^verbatim>\<open>s.replace(/: string/g, ': "example-value"')\<close>\<close>
  "exampleValues [] = []"
| "exampleValues (c # cs) =
     (if startsWith (c # cs) '': string''
      then '': '' @ [DQ] @ ''example-value'' @ [DQ] @ exampleValues (drop 7 cs)
      else c # exampleValues cs)"
  by pat_completeness auto
termination
  by (relation "measure length") simp_all

definition generateSdkCodeBlock ::
  "string \<Rightarrow> string \<Rightarrow> bool \<Rightarrow> bool \<Rightarrow> bool \<Rightarrow> string \<Rightarrow> string \<Rightarrow> string \<Rightarrow> string option \<Rightarrow> string"
where
  "generateSdkCodeBlock path method hasBody hasParams hasQuery paramsType
       sdkImport' sdkClientName' sdkClientOptions' =
     (let callArgs = join '', '' (truthy [if hasBody then Some ''body'' else None,
                                           if hasQuery then Some ''{ query }'' else None]);
          lines =
            [Some ''```typescript'',
             Some (sdkImport' @ [NL]),
             Some (''const client = '' @ sdkClientName' @ ''(''
                   @ (case sdkClientOptions' of None \<Rightarrow> [] | Some opts \<Rightarrow> opts) @ '');'' @ [NL]),
             if hasParams
             then Some (''const params = ''
                        @ exampleValues (dropCommaBeforeBrace
                            (map (\<lambda>c. if c = CHR '';'' then CHR '','' else c) paramsType))
                        @ '';'' @ [NL])
             else None,
             if hasBody
             then Some (''// Define your request body'' @ [NL]
                        @ ''const body = {}; // Replace with actual body data'' @ [NL])
             else None,
             if hasQuery
             then Some (''// Define your query parameters'' @ [NL]
                        @ ''const query = {}; // Replace with actual query data'' @ [NL])
             else None,
             Some (''const response = await '' @ buildClientPath path @ ''.'' @ method
                   @ ''('' @ callArgs @ '');''),
             Some (''```'' @ [NL])]
      in join [NL] (truthy lines))"

definition formatTypeBlock :: "string \<Rightarrow> string \<Rightarrow> error + string" where
  "formatTypeBlock label typeStr =
     (case prettyPrintType typeStr of
        Inl e \<Rightarrow> Inl e
      | Inr pretty \<Rightarrow>
          Inr (''**'' @ label @ '':**'' @ [NL, NL] @ ''```typescript'' @ [NL] @ pretty @ [NL]
               @ ''```'' @ [NL, NL]))"

section \<open>generateDocsFromType\<close>

type_synonym routeTypes = "string \<rightharpoonup> string"

definition defaultRouteTypes :: routeTypes where
  "defaultRouteTypes =
     [''body'' \<mapsto> ''unknown'', ''params'' \<mapsto> ''{}'', ''query'' \<mapsto> ''unknown'', ''response'' \<mapsto> ''{}'']"

definition field :: "routeTypes \<Rightarrow> string \<Rightarrow> string" where
  \<comment> \<open>\<^verbatim>\<open>routeTypes.body\<close> and the like; the four keys are always there\<close>
  "field routeTypes key = (case routeTypes key of None \<Rightarrow> [] | Some v \<Rightarrow> v)"

fun collectRouteTypes :: "checker \<Rightarrow> property list \<Rightarrow> routeTypes \<Rightarrow> routeTypes option" where
  \<comment> \<open>the loop over the method's properties. For a key that \<^verbatim>\<open>in\<close> finds on
      \<^verbatim>\<open>Object.prototype\<close> only, the source also resolves the type and stores the string,
      under a key that is never read.\<close>
  "collectRouteTypes env [] routeTypes = Some routeTypes"
| "collectRouteTypes env (methodProp # rest) routeTypes =
     (let key = getName methodProp in
      if key \<in> dom routeTypes
      then do {
        resolved \<leftarrow> resolveTypeText env (getTypeAtLocation methodProp) 0;
        collectRouteTypes env rest (routeTypes(key \<mapsto> resolved))
      }
      else collectRouteTypes env rest routeTypes)"

fun findResolvePath :: "string \<Rightarrow> string option" where
  \<comment> \<open>group 1 of \<^verbatim>\<open>s.match(/_ResolvePath<"([^"]+)">/)\<close>, if it matches\<close>
  "findResolvePath [] = None"
| "findResolvePath (c # cs) =
     (let literal = takeWhile (\<lambda>x. x \<noteq> DQ) (drop 14 (c # cs));
          after = dropWhile (\<lambda>x. x \<noteq> DQ) (drop 14 (c # cs))
      in if startsWith (c # cs) (''_ResolvePath<'' @ [DQ]) \<and> literal \<noteq> []
            \<and> startsWith after ([DQ] @ ''>'')
         then Some literal
         else findResolvePath cs)"

definition repairParams :: "string \<Rightarrow> string" where
  \<comment> \<open>the \<^verbatim>\<open>_ResolvePath\<close> block\<close>
  "repairParams params =
     (if startsWith params ''_ResolvePath<''
      then (case findResolvePath params of
              None \<Rightarrow> params
            | Some literal \<Rightarrow> parseParamsFromPath literal)
      else params)"

definition endpointSection :: "string \<Rightarrow> string \<Rightarrow> routeTypes \<Rightarrow> sdkConfig \<Rightarrow> error + string" where
  \<comment> \<open>the arguments of \<^verbatim>\<open>parts.push\<close> for a method, evaluated in order, then concatenated\<close>
  "endpointSection path propName routeTypes sdk =
     (let hasBody = (field routeTypes ''body'' \<noteq> ''unknown'');
          hasParams = (field routeTypes ''params'' \<noteq> ''{}'');
          hasQuery = (field routeTypes ''query'' \<noteq> ''unknown'');
          heading = ''### '' @ toUpperCase propName @ '' '' @ path @ [NL, NL] @ ''<details>'' @ [NL]
                    @ ''<summary>SDK Usage</summary>'' @ [NL, NL];
          usage = generateSdkCodeBlock path propName hasBody hasParams hasQuery
                    (field routeTypes ''params'') (sdkImport sdk) (sdkClientName sdk)
                    (sdkClientOptions sdk)
      in case (if hasBody then formatTypeBlock ''Body'' (field routeTypes ''body'') else Inr []) of
           Inl e \<Rightarrow> Inl e
         | Inr bodyBlock \<Rightarrow>
        (case (if hasParams then formatTypeBlock ''Params'' (field routeTypes ''params'') else Inr []) of
           Inl e \<Rightarrow> Inl e
         | Inr paramsBlock \<Rightarrow>
        (case (if hasQuery then formatTypeBlock ''Query'' (field routeTypes ''query'') else Inr []) of
           Inl e \<Rightarrow> Inl e
         | Inr queryBlock \<Rightarrow>
        (case formatTypeBlock ''Response'' (field routeTypes ''response'') of
           Inl e \<Rightarrow> Inl e
         | Inr responseBlock \<Rightarrow>
             Inr (heading @ usage @ bodyBlock @ paramsBlock @ queryBlock @ responseBlock
                  @ ''</details>'' @ [NL, NL] @ ''---'' @ [NL, NL])))))"

definition methodDocs ::
  "checker \<Rightarrow> sdkConfig \<Rightarrow> string \<Rightarrow> string \<Rightarrow> handle \<Rightarrow> (error + string) option" where
  \<comment> \<open>the \<^verbatim>\<open>HTTP_METHODS\<close> branch for a path that is not empty\<close>
  "methodDocs env sdk path propName propType = do {
     routeTypes \<leftarrow> collectRouteTypes env (getProperties (env propType)) defaultRouteTypes;
     Some (endpointSection path propName
             (routeTypes(''params'' \<mapsto> repairParams (field routeTypes ''params''))) sdk)
   }"

text \<open>
  The walk over a type's properties. \<^const>\<open>None\<close> is a walk that does not end (the types
  may refer to themselves and the walk has no depth bound); \<^const>\<open>Inl\<close> is the error
  raised, which ends the walk.
\<close>

partial_function (option) walkProperties ::
  "checker \<Rightarrow> sdkConfig \<Rightarrow> property list \<Rightarrow> string \<Rightarrow> (error + string) option" where
  "walkProperties env sdk props path =
     (case props of
        [] \<Rightarrow> Some (Inr [])
      | prop # rest \<Rightarrow> do {
          pushed \<leftarrow>
            (let propName = getName prop; propType = getTypeAtLocation prop in
             if propName \<in> set HTTP_METHODS
             then (if path = [] then Some (Inr []) else methodDocs env sdk path propName propType)
             else if propName = ''~Routes''
             then walkProperties env sdk (getProperties (env propType)) []
             else if propName \<notin> set INTERNAL_PROPS \<and> \<not> startsWith propName ''~''
                     \<and> \<not> startsWith propName ''_''
             then walkProperties env sdk (getProperties (env propType))
                    (path @ (if startsWith propName '':'' \<and> path = [] then [] else ''/'') @ propName)
             else Some (Inr []));
          (case pushed of
             Inl e \<Rightarrow> Some (Inl e)
           | Inr part \<Rightarrow> do {
               more \<leftarrow> walkProperties env sdk rest path;
               Some (case more of Inl e \<Rightarrow> Inl e | Inr parts \<Rightarrow> Inr (part @ parts))
             })
        })"

declare walkProperties.simps [code]

definition generateDocsFromType ::
  "checker \<Rightarrow> sdkConfig \<Rightarrow> handle \<Rightarrow> string \<Rightarrow> (error + string) option" where
  "generateDocsFromType env sdk type path = walkProperties env sdk (getProperties (env type)) path"

definition exampleSdk :: sdkConfig where
  "exampleSdk = \<lparr>sdkImport = ''import { treaty } from '' @ [DQ] @ ''elysia'' @ [DQ] @ '';'',
                  sdkClientName = ''treaty'', sdkClientOptions = None\<rparr>"

definition routesEx :: checker where
  \<comment> \<open>\<^verbatim>\<open>{ api: { "~Routes": { users: { get: { response: string } } } } }\<close> at handle 0\<close>
  "routesEx h =
     (if h = 0 then (plain ''App'')\<lparr>isObject := True,
        getProperties := [\<lparr>getName = ''api'', isOptional = False, getTypeAtLocation = 1\<rparr>]\<rparr>
      else if h = 1 then (plain ''Api'')\<lparr>isObject := True,
        getProperties := [\<lparr>getName = ''~Routes'', isOptional = False, getTypeAtLocation = 2\<rparr>]\<rparr>
      else if h = 2 then (plain ''Routes'')\<lparr>isObject := True,
        getProperties := [\<lparr>getName = ''users'', isOptional = False, getTypeAtLocation = 3\<rparr>]\<rparr>
      else if h = 3 then (plain ''Users'')\<lparr>isObject := True,
        getProperties := [\<lparr>getName = ''get'', isOptional = False, getTypeAtLocation = 4\<rparr>]\<rparr>
      else if h = 4 then (plain ''Get'')\<lparr>isObject := True,
        getProperties := [\<lparr>getName = ''response'', isOptional = False, getTypeAtLocation = 5\<rparr>]\<rparr>
      else plain ''string'')"

section \<open>Nested routes\<close>

definition appendParts ::
  "(error + string) option \<Rightarrow> (error + string) option \<Rightarrow> (error + string) option" where
  "appendParts pushed later = do {
     p \<leftarrow> pushed;
     (case p of
        Inl e \<Rightarrow> Some (Inl e)
      | Inr part \<Rightarrow> do {
          more \<leftarrow> later;
          Some (case more of Inl e \<Rightarrow> Inl e | Inr parts \<Rightarrow> Inr (part @ parts))
        })
   }"

text \<open>
  The claim C1 as stated fails: the node at handle 1 has the single property
  \<^verbatim>\<open>~Routes\<close>, and walking it with the path \<^verbatim>\<open>/api\<close> is not walking the property's
  type with \<^verbatim>\<open>/api\<close>: the endpoint below comes out as \<^verbatim>\<open>GET /users\<close>.
\<close>

theorem routes_marker_counterexample:
  "getProperties (routesEx 1) = [\<lparr>getName = ''~Routes'', isOptional = False, getTypeAtLocation = 2\<rparr>] \<and>
   generateDocsFromType routesEx exampleSdk 1 ''/api''
     \<noteq> generateDocsFromType routesEx exampleSdk 2 ''/api''"
  by code_simp

text \<open>
  C1, amended. When the walk reaches a property named \<^verbatim>\<open>~Routes\<close>, it walks that
  property's type with the empty path, whatever path it has accumulated, and goes on with
  the remaining properties under the accumulated path.
\<close>

theorem routes_marker_resets_path:
  assumes "getName prop = ''~Routes''"
  shows "walkProperties env sdk (prop # rest) path
         = appendParts (generateDocsFromType env sdk (getTypeAtLocation prop) [])
                       (walkProperties env sdk rest path)"
proof -
  have "''~Routes'' \<notin> set HTTP_METHODS" by (simp add: HTTP_METHODS_def)
  with assms show ?thesis
    by (subst walkProperties.simps)
       (simp add: appendParts_def generateDocsFromType_def Let_def)
qed

theorem routes_marker_resets_path_witness:
  "getName \<lparr>getName = ''~Routes'', isOptional = False, getTypeAtLocation = 2\<rparr> = ''~Routes'' \<and>
   generateDocsFromType routesEx exampleSdk 1 ''/api''
     = generateDocsFromType routesEx exampleSdk 2 []"
proof -
  have e: "walkProperties routesEx exampleSdk [] ''/api'' = Some (Inr [])"
    by (subst walkProperties.simps) simp
  have p: "getProperties (routesEx 1)
           = [\<lparr>getName = ''~Routes'', isOptional = False, getTypeAtLocation = 2\<rparr>]"
    by (simp add: routesEx_def plain_def)
  obtain r where r: "generateDocsFromType routesEx exampleSdk 2 [] = r" by blast
  have "appendParts r (Some (Inr [])) = r"
    by (cases r) (auto simp: appendParts_def split: sum.splits)
  with routes_marker_resets_path
         [of "\<lparr>getName = ''~Routes'', isOptional = False, getTypeAtLocation = 2\<rparr>"
             routesEx exampleSdk "[]" "''/api''"] e p r
  show ?thesis by (simp add: generateDocsFromType_def)
qed

section \<open>Repair of the params expression\<close>

definition claimedRepair :: "string \<Rightarrow> string \<Rightarrow> string" where
  "claimedRepair path params =
     (if startsWith params ''_ResolvePath<'' then parseParamsFromPath path else params)"

definition helperLiteralAt :: "string \<Rightarrow> nat \<Rightarrow> string \<Rightarrow> bool" where
  \<comment> \<open>at position \<open>n\<close> of \<open>s\<close> stands \<^verbatim>\<open>_ResolvePath<"L">\<close>, with \<open>L\<close> not empty and without
      a double quote\<close>
  "helperLiteralAt s n L \<longleftrightarrow>
     L \<noteq> [] \<and> DQ \<notin> set L \<and>
     (\<exists>rest. drop n s = ''_ResolvePath<'' @ [DQ] @ L @ [DQ] @ ''>'' @ rest)"

definition helperEx :: checker where
  \<comment> \<open>two method nodes, at the handles 0 and 3, with the params expressions at 1 and 4\<close>
  "helperEx h =
     (if h = 0 then (plain ''Get'')\<lparr>isObject := True,
        getProperties := [\<lparr>getName = ''params'', isOptional = False, getTypeAtLocation = 1\<rparr>,
                          \<lparr>getName = ''response'', isOptional = False, getTypeAtLocation = 2\<rparr>]\<rparr>
      else if h = 1
      then plain (''_ResolvePath<string> | _ResolvePath<'' @ [DQ] @ ''/a/:b'' @ [DQ] @ ''>'')
      else if h = 3 then (plain ''Get'')\<lparr>isObject := True,
        getProperties := [\<lparr>getName = ''params'', isOptional = False, getTypeAtLocation = 4\<rparr>,
                          \<lparr>getName = ''response'', isOptional = False, getTypeAtLocation = 2\<rparr>]\<rparr>
      else if h = 4 then plain (''_ResolvePath<'' @ [DQ, DQ] @ ''>'')
      else plain ''string'')"

text \<open>
  The claim C3 as stated fails: the extractor is applied to the string literal inside the
  params expression, not to the accumulated path, and without such a literal the expression
  stays as it is. \<^const>\<open>claimedRepair\<close> is the repair in the spec's words.
\<close>

theorem repair_ignores_path:
  "repairParams (''_ResolvePath<'' @ [DQ] @ ''/items/:itemId'' @ [DQ] @ ''>'') = ''{itemId: string}'' \<and>
   claimedRepair ''/items/:id'' (''_ResolvePath<'' @ [DQ] @ ''/items/:itemId'' @ [DQ] @ ''>'')
     = ''{id: string}'' \<and>
   repairParams ''_ResolvePath<string>'' = ''_ResolvePath<string>'' \<and>
   claimedRepair ''/items/:id'' ''_ResolvePath<string>'' = ''{id: string}''"
  by (simp add: repairParams_def claimedRepair_def parseParamsFromPath_def startsWith_def DQ_def)

lemma takeWhile_until: "d \<notin> set xs \<Longrightarrow> takeWhile (\<lambda>x. x \<noteq> d) (xs @ d # ys) = xs"
  by (induction xs) auto

lemma dropWhile_until: "d \<notin> set xs \<Longrightarrow> dropWhile (\<lambda>x. x \<noteq> d) (xs @ d # ys) = d # ys"
  by (induction xs) auto

lemma helperLiteralAt_head:
  "helperLiteralAt s 0 L \<longleftrightarrow>
     startsWith s (''_ResolvePath<'' @ [DQ]) \<and> takeWhile (\<lambda>x. x \<noteq> DQ) (drop 14 s) = L \<and> L \<noteq> []
     \<and> startsWith (dropWhile (\<lambda>x. x \<noteq> DQ) (drop 14 s)) ([DQ] @ ''>'')"
proof
  assume "helperLiteralAt s 0 L"
  then obtain rest where l: "L \<noteq> []" "DQ \<notin> set L"
    and s: "s = ''_ResolvePath<'' @ [DQ] @ L @ [DQ] @ ''>'' @ rest"
    by (auto simp: helperLiteralAt_def)
  have d: "drop 14 s = L @ DQ # (''>'' @ rest)" by (simp add: s)
  have t: "takeWhile (\<lambda>x. x \<noteq> DQ) (drop 14 s) = L"
    by (simp only: d takeWhile_until [OF l(2)])
  have r: "dropWhile (\<lambda>x. x \<noteq> DQ) (drop 14 s) = DQ # (''>'' @ rest)"
    by (simp only: d dropWhile_until [OF l(2)])
  have p: "startsWith s (''_ResolvePath<'' @ [DQ])" by (simp add: s startsWith_def)
  have q: "startsWith (dropWhile (\<lambda>x. x \<noteq> DQ) (drop 14 s)) ([DQ] @ ''>'')"
    by (simp add: r startsWith_def)
  from p t l(1) q
  show "startsWith s (''_ResolvePath<'' @ [DQ]) \<and> takeWhile (\<lambda>x. x \<noteq> DQ) (drop 14 s) = L \<and> L \<noteq> []
     \<and> startsWith (dropWhile (\<lambda>x. x \<noteq> DQ) (drop 14 s)) ([DQ] @ ''>'')"
    by blast
next
  assume a: "startsWith s (''_ResolvePath<'' @ [DQ]) \<and> takeWhile (\<lambda>x. x \<noteq> DQ) (drop 14 s) = L \<and> L \<noteq> []
     \<and> startsWith (dropWhile (\<lambda>x. x \<noteq> DQ) (drop 14 s)) ([DQ] @ ''>'')"
  let ?after = "dropWhile (\<lambda>x. x \<noteq> DQ) (drop 14 s)"
  have "length (''_ResolvePath<'' @ [DQ]) = 14" "length ([DQ] @ ''>'') = 2" by simp_all
  with a have p: "take 14 s = ''_ResolvePath<'' @ [DQ]" and q: "take 2 ?after = [DQ] @ ''>''"
    unfolding startsWith_def by metis+
  from a have t: "takeWhile (\<lambda>x. x \<noteq> DQ) (drop 14 s) = L" by blast
  have "s = take 14 s @ drop 14 s" by simp
  also have "drop 14 s = L @ ?after" using t takeWhile_dropWhile_id [of "\<lambda>x. x \<noteq> DQ" "drop 14 s"]
    by simp
  also have "?after = take 2 ?after @ drop 2 ?after" by simp
  finally have "s = ''_ResolvePath<'' @ [DQ] @ L @ [DQ] @ ''>'' @ drop 2 ?after"
    by (simp only: p q append_assoc)
  moreover have "DQ \<notin> set L" using t set_takeWhileD [of DQ "\<lambda>x. x \<noteq> DQ" "drop 14 s"] by blast
  moreover from a have "L \<noteq> []" by blast
  ultimately show "helperLiteralAt s 0 L" unfolding helperLiteralAt_def by (simp only: drop_0) blast
qed

lemma helperLiteralAt_drop: "helperLiteralAt s n L \<longleftrightarrow> helperLiteralAt (drop n s) 0 L"
  by (simp add: helperLiteralAt_def)

lemma helperLiteralAt_inside: "helperLiteralAt s n L \<Longrightarrow> n < length s"
  by (cases "n < length s") (auto simp: helperLiteralAt_def)

lemma helperLiteralAt_unique:
  assumes "helperLiteralAt s n L" "helperLiteralAt s n L'"
  shows "L = L'"
  using assms helperLiteralAt_drop [of s n] helperLiteralAt_head [of "drop n s"] by metis

lemma findResolvePath_None:
  "findResolvePath s = None \<Longrightarrow> \<not> helperLiteralAt s m L"
proof (induction s arbitrary: m)
  case Nil
  show ?case by (simp add: helperLiteralAt_def)
next
  case (Cons c cs)
  let ?found = "startsWith (c # cs) (''_ResolvePath<'' @ [DQ])
       \<and> takeWhile (\<lambda>x. x \<noteq> DQ) (drop 14 (c # cs)) \<noteq> []
       \<and> startsWith (dropWhile (\<lambda>x. x \<noteq> DQ) (drop 14 (c # cs))) ([DQ] @ ''>'')"
  from Cons.prems have n: "\<not> ?found" by (auto simp: Let_def split: if_splits)
  from Cons.prems have r: "findResolvePath cs = None" by (auto simp: Let_def split: if_splits)
  show ?case
  proof (cases m)
    case 0
    from n helperLiteralAt_head [of "c # cs" L] have "\<not> helperLiteralAt (c # cs) 0 L" by blast
    with 0 show ?thesis by simp
  next
    case (Suc k)
    from Cons.IH [OF r, of k] have "\<not> helperLiteralAt cs k L" .
    with Suc show ?thesis by (simp add: helperLiteralAt_def)
  qed
qed

lemma findResolvePath_Some:
  "findResolvePath s = Some L \<Longrightarrow>
   \<exists>n. helperLiteralAt s n L \<and> (\<forall>m<n. \<forall>L'. \<not> helperLiteralAt s m L')"
proof (induction s)
  case Nil
  then show ?case by simp
next
  case (Cons c cs)
  let ?found = "startsWith (c # cs) (''_ResolvePath<'' @ [DQ])
       \<and> takeWhile (\<lambda>x. x \<noteq> DQ) (drop 14 (c # cs)) \<noteq> []
       \<and> startsWith (dropWhile (\<lambda>x. x \<noteq> DQ) (drop 14 (c # cs))) ([DQ] @ ''>'')"
  show ?case
  proof (cases ?found)
    case True
    with Cons.prems have "takeWhile (\<lambda>x. x \<noteq> DQ) (drop 14 (c # cs)) = L" by (simp add: Let_def)
    with True helperLiteralAt_head [of "c # cs" L] have "helperLiteralAt (c # cs) 0 L" by blast
    then have "helperLiteralAt (c # cs) 0 L \<and> (\<forall>m<0. \<forall>L'. \<not> helperLiteralAt (c # cs) m L')"
      by simp
    then show ?thesis by (rule exI)
  next
    case False
    with Cons.prems have "findResolvePath cs = Some L"
      by (auto simp: Let_def split: if_splits)
    from Cons.IH [OF this] obtain n where n: "helperLiteralAt cs n L"
      and before: "\<forall>m<n. \<forall>L'. \<not> helperLiteralAt cs m L'"
      by blast
    from n have here: "helperLiteralAt (c # cs) (Suc n) L" by (simp add: helperLiteralAt_def)
    have "\<not> helperLiteralAt (c # cs) m L'" if "m < Suc n" for m L'
    proof (cases m)
      case 0
      from False helperLiteralAt_head [of "c # cs" L'] have "\<not> helperLiteralAt (c # cs) 0 L'"
        by blast
      with 0 show ?thesis by simp
    next
      case (Suc k)
      with that before have "\<not> helperLiteralAt cs k L'" by simp
      with Suc show ?thesis by (simp add: helperLiteralAt_def)
    qed
    with here have "helperLiteralAt (c # cs) (Suc n) L
        \<and> (\<forall>m<Suc n. \<forall>L'. \<not> helperLiteralAt (c # cs) m L')"
      by blast
    then show ?thesis by (rule exI)
  qed
qed

lemma repairParams_leftmost:
  assumes "startsWith params ''_ResolvePath<''"
  shows "(\<forall>n L. helperLiteralAt params n L \<and> (\<forall>m<n. \<forall>L'. \<not> helperLiteralAt params m L')
            \<longrightarrow> repairParams params = parseParamsFromPath L)
       \<and> ((\<forall>m L'. \<not> helperLiteralAt params m L') \<longrightarrow> repairParams params = params)"
proof (cases "findResolvePath params")
  case None
  from findResolvePath_None [OF None] have no: "\<not> helperLiteralAt params m L" for m L .
  have "repairParams params = params" using None by (simp add: repairParams_def)
  with no show ?thesis by blast
next
  case (Some K)
  from findResolvePath_Some [OF Some] obtain k where k: "helperLiteralAt params k K"
    and before: "\<forall>m<k. \<forall>L'. \<not> helperLiteralAt params m L'"
    by blast
  have r: "repairParams params = parseParamsFromPath K"
    using Some assms by (simp add: repairParams_def)
  have "repairParams params = parseParamsFromPath L"
    if l: "helperLiteralAt params n L" and first: "\<forall>m<n. \<forall>L'. \<not> helperLiteralAt params m L'"
    for n L
  proof -
    have "\<not> n < k" using before l by blast
    moreover have "\<not> k < n" using first k by blast
    ultimately have "n = k" by simp
    with l k have "L = K" using helperLiteralAt_unique by blast
    with r show ?thesis by simp
  qed
  with k show ?thesis by blast
qed

lemma collectRouteTypes_returns: "\<exists>r. collectRouteTypes env props routeTypes = Some r"
proof (induction props arbitrary: routeTypes)
  case Nil
  show ?case by simp
next
  case (Cons p ps)
  obtain resolved where "resolveTypeText env (getTypeAtLocation p) 0 = Some resolved"
    using resolveTypeText_returns by blast
  with Cons show ?case by (simp add: Let_def)
qed

lemma walkProperties_method:
  assumes "getName p \<in> set HTTP_METHODS" "path \<noteq> []"
  shows "walkProperties env sdk (p # rest) path
         = appendParts (methodDocs env sdk path (getName p) (getTypeAtLocation p))
             (walkProperties env sdk rest path)"
  using assms by (subst walkProperties.simps) (simp add: appendParts_def Let_def)

text \<open>
  C3, amended. For a method reached with a path that is not empty, the section emitted is
  the one of the collected types with the params expression replaced as follows. An
  expression that does not begin with \<^verbatim>\<open>_ResolvePath<\<close> stays. In one that does, the
  leftmost place where \<^verbatim>\<open>_ResolvePath<"L">\<close> stands, with \<^verbatim>\<open>L\<close> not empty and without a
  double quote, gives the replacement: the extractor's result on that \<^verbatim>\<open>L\<close>; the
  accumulated path plays no part. If there is no such place, the expression stays.
\<close>

theorem repair_uses_leftmost_literal:
  assumes "getName p \<in> set HTTP_METHODS" "path \<noteq> []"
  shows "\<exists>routeTypes emitted.
     collectRouteTypes env (getProperties (env (getTypeAtLocation p))) defaultRouteTypes
       = Some routeTypes \<and>
     walkProperties env sdk (p # rest) path
       = appendParts
           (Some (endpointSection path (getName p) (routeTypes(''params'' \<mapsto> emitted)) sdk))
           (walkProperties env sdk rest path) \<and>
     (\<not> startsWith (field routeTypes ''params'') ''_ResolvePath<''
        \<longrightarrow> emitted = field routeTypes ''params'') \<and>
     (startsWith (field routeTypes ''params'') ''_ResolvePath<'' \<longrightarrow>
        (\<forall>n L. helperLiteralAt (field routeTypes ''params'') n L
                \<and> (\<forall>m<n. \<forall>L'. \<not> helperLiteralAt (field routeTypes ''params'') m L')
           \<longrightarrow> emitted = parseParamsFromPath L) \<and>
        ((\<forall>m L'. \<not> helperLiteralAt (field routeTypes ''params'') m L')
           \<longrightarrow> emitted = field routeTypes ''params''))"
proof -
  obtain routeTypes where c:
    "collectRouteTypes env (getProperties (env (getTypeAtLocation p))) defaultRouteTypes
       = Some routeTypes"
    using collectRouteTypes_returns by blast
  define emitted where "emitted = repairParams (field routeTypes ''params'')"
  have w: "walkProperties env sdk (p # rest) path
       = appendParts
           (Some (endpointSection path (getName p) (routeTypes(''params'' \<mapsto> emitted)) sdk))
           (walkProperties env sdk rest path)"
    using walkProperties_method [OF assms, of env sdk rest] c
    by (simp add: methodDocs_def emitted_def)
  have n: "emitted = field routeTypes ''params''"
    if "\<not> startsWith (field routeTypes ''params'') ''_ResolvePath<''"
    using that by (simp add: emitted_def repairParams_def)
  from c w n repairParams_leftmost [of "field routeTypes ''params''"]
  show ?thesis unfolding emitted_def by blast
qed

theorem repair_uses_leftmost_literal_witness:
  "getName \<lparr>getName = ''get'', isOptional = False, getTypeAtLocation = 0\<rparr> \<in> set HTTP_METHODS \<and>
   ''/items/:id'' \<noteq> [] \<and>
   helperLiteralAt (''_ResolvePath<string> | _ResolvePath<'' @ [DQ] @ ''/a/:b'' @ [DQ] @ ''>'')
     23 ''/a/:b'' \<and>
   \<not> (\<exists>m<23. \<exists>L'. helperLiteralAt
       (''_ResolvePath<string> | _ResolvePath<'' @ [DQ] @ ''/a/:b'' @ [DQ] @ ''>'') m L') \<and>
   walkProperties helperEx exampleSdk
       [\<lparr>getName = ''get'', isOptional = False, getTypeAtLocation = 0\<rparr>] ''/items/:id''
     = Some (endpointSection ''/items/:id'' ''get''
               [''body'' \<mapsto> ''unknown'', ''params'' \<mapsto> ''{b: string}'', ''query'' \<mapsto> ''unknown'',
                ''response'' \<mapsto> ''string''] exampleSdk) \<and>
   \<not> (\<exists>m L'. helperLiteralAt (''_ResolvePath<'' @ [DQ, DQ] @ ''>'') m L') \<and>
   walkProperties helperEx exampleSdk
       [\<lparr>getName = ''get'', isOptional = False, getTypeAtLocation = 3\<rparr>] ''/items/:id''
     = Some (endpointSection ''/items/:id'' ''get''
               [''body'' \<mapsto> ''unknown'', ''params'' \<mapsto> ''_ResolvePath<'' @ [DQ, DQ] @ ''>'',
                ''query'' \<mapsto> ''unknown'', ''response'' \<mapsto> ''string''] exampleSdk)"
proof -
  let ?one = "''_ResolvePath<string> | _ResolvePath<'' @ [DQ] @ ''/a/:b'' @ [DQ] @ ''>''"
  let ?two = "''_ResolvePath<'' @ [DQ, DQ] @ ''>''"
  let ?get = "\<lambda>h. \<lparr>getName = ''get'', isOptional = False, getTypeAtLocation = h\<rparr>"
  have h: "getName (?get 0) \<in> set HTTP_METHODS" "getName (?get 3) \<in> set HTTP_METHODS"
    "''/items/:id'' \<noteq> []"
    by (simp_all add: HTTP_METHODS_def)
  have e: "walkProperties helperEx exampleSdk [] ''/items/:id'' = Some (Inr [])"
    by (subst walkProperties.simps) simp
  have ap: "appendParts (Some x) (Some (Inr [])) = Some x" for x :: "error + string"
    by (cases x) (simp_all add: appendParts_def)
  have r: "resolveTypeText helperEx 1 0 = Some ?one" "resolveTypeText helperEx 2 0 = Some ''string''"
    "resolveTypeText helperEx 4 0 = Some ?two"
    by code_simp+
  have c1: "collectRouteTypes helperEx (getProperties (helperEx (getTypeAtLocation (?get 0))))
              defaultRouteTypes
            = Some (defaultRouteTypes(''params'' \<mapsto> ?one, ''response'' \<mapsto> ''string''))"
    using r by (simp add: helperEx_def plain_def defaultRouteTypes_def Let_def)
  have c2: "collectRouteTypes helperEx (getProperties (helperEx (getTypeAtLocation (?get 3))))
              defaultRouteTypes
            = Some (defaultRouteTypes(''params'' \<mapsto> ?two, ''response'' \<mapsto> ''string''))"
    using r by (simp add: helperEx_def plain_def defaultRouteTypes_def Let_def)
  have f1: "field (defaultRouteTypes(''params'' \<mapsto> ?one, ''response'' \<mapsto> ''string'')) ''params'' = ?one"
    and f2: "field (defaultRouteTypes(''params'' \<mapsto> ?two, ''response'' \<mapsto> ''string'')) ''params'' = ?two"
    by (simp_all add: field_def)
  have s: "startsWith ?one ''_ResolvePath<''" "startsWith ?two ''_ResolvePath<''"
    by (simp_all add: startsWith_def)
  have at: "helperLiteralAt ?one 23 ''/a/:b''"
    by (subst helperLiteralAt_drop) (simp add: helperLiteralAt_head startsWith_def DQ_def)
  have before: "\<not> helperLiteralAt ?one m L'" if "m < 23" for m L'
  proof -
    from that have "m \<in> set [0..<23]" by simp
    then show ?thesis
      by (subst helperLiteralAt_drop)
         (auto simp add: upt_rec helperLiteralAt_head startsWith_def DQ_def)
  qed
  have none: "\<not> helperLiteralAt ?two m L'" for m L'
  proof (cases "m < 17")
    case True
    then have "m \<in> set [0..<17]" by simp
    then show ?thesis
      by (subst helperLiteralAt_drop)
         (auto simp add: upt_rec helperLiteralAt_head startsWith_def DQ_def)
  next
    case False
    then show ?thesis using helperLiteralAt_inside [of ?two m L'] by auto
  qed
  have m1: "[''body'' \<mapsto> ''unknown'', ''params'' \<mapsto> ''{b: string}'', ''query'' \<mapsto> ''unknown'',
             ''response'' \<mapsto> ''string'']
            = (defaultRouteTypes(''params'' \<mapsto> ?one, ''response'' \<mapsto> ''string''))
                (''params'' \<mapsto> ''{b: string}'')"
    by (rule ext) (simp add: defaultRouteTypes_def)
  have m2: "[''body'' \<mapsto> ''unknown'', ''params'' \<mapsto> ?two, ''query'' \<mapsto> ''unknown'',
             ''response'' \<mapsto> ''string'']
            = (defaultRouteTypes(''params'' \<mapsto> ?two, ''response'' \<mapsto> ''string''))
                (''params'' \<mapsto> ?two)"
    by (rule ext) (simp add: defaultRouteTypes_def)
  have pp: "parseParamsFromPath ''/a/:b'' = ''{b: string}''"
    by (simp add: parseParamsFromPath_def startsWith_def)
  from repair_uses_leftmost_literal [of "?get 0" "''/items/:id''" helperEx exampleSdk "[]"] h
  obtain routeTypes emitted where a:
    "collectRouteTypes helperEx (getProperties (helperEx (getTypeAtLocation (?get 0))))
       defaultRouteTypes = Some routeTypes"
    "walkProperties helperEx exampleSdk [?get 0] ''/items/:id''
       = appendParts
           (Some (endpointSection ''/items/:id'' (getName (?get 0))
                    (routeTypes(''params'' \<mapsto> emitted)) exampleSdk))
           (walkProperties helperEx exampleSdk [] ''/items/:id'')"
    "startsWith (field routeTypes ''params'') ''_ResolvePath<'' \<longrightarrow>
        (\<forall>n L. helperLiteralAt (field routeTypes ''params'') n L
                \<and> (\<forall>m<n. \<forall>L'. \<not> helperLiteralAt (field routeTypes ''params'') m L')
           \<longrightarrow> emitted = parseParamsFromPath L)"
    by blast
  from a(1) c1 have rt: "routeTypes = defaultRouteTypes(''params'' \<mapsto> ?one, ''response'' \<mapsto> ''string'')"
    by simp
  from a(3) s(1) at before have "emitted = parseParamsFromPath ''/a/:b''"
    unfolding rt f1 by blast
  with pp have em: "emitted = ''{b: string}''" by simp
  have w1: "walkProperties helperEx exampleSdk [?get 0] ''/items/:id''
     = Some (endpointSection ''/items/:id'' ''get''
               [''body'' \<mapsto> ''unknown'', ''params'' \<mapsto> ''{b: string}'', ''query'' \<mapsto> ''unknown'',
                ''response'' \<mapsto> ''string''] exampleSdk)"
    unfolding m1 using a(2) by (simp only: e ap rt em) simp
  from repair_uses_leftmost_literal [of "?get 3" "''/items/:id''" helperEx exampleSdk "[]"] h
  obtain routeTypes' emitted' where b:
    "collectRouteTypes helperEx (getProperties (helperEx (getTypeAtLocation (?get 3))))
       defaultRouteTypes = Some routeTypes'"
    "walkProperties helperEx exampleSdk [?get 3] ''/items/:id''
       = appendParts
           (Some (endpointSection ''/items/:id'' (getName (?get 3))
                    (routeTypes'(''params'' \<mapsto> emitted')) exampleSdk))
           (walkProperties helperEx exampleSdk [] ''/items/:id'')"
    "startsWith (field routeTypes' ''params'') ''_ResolvePath<'' \<longrightarrow>
        ((\<forall>m L'. \<not> helperLiteralAt (field routeTypes' ''params'') m L')
           \<longrightarrow> emitted' = field routeTypes' ''params'')"
    by blast
  from b(1) c2 have rt': "routeTypes' = defaultRouteTypes(''params'' \<mapsto> ?two, ''response'' \<mapsto> ''string'')"
    by simp
  from b(3) s(2) none have em': "emitted' = ?two"
    unfolding rt' f2 by blast
  have w2: "walkProperties helperEx exampleSdk [?get 3] ''/items/:id''
     = Some (endpointSection ''/items/:id'' ''get''
               [''body'' \<mapsto> ''unknown'', ''params'' \<mapsto> ?two, ''query'' \<mapsto> ''unknown'',
                ''response'' \<mapsto> ''string''] exampleSdk)"
    unfolding m2 using b(2) by (simp only: e ap rt' em') simp
  from h(1,3) at before w1 none w2 show ?thesis by blast
qed

section \<open>Presence of body, params and query\<close>

















end
